theory Spec2Isabelle
  imports Main
begin

section \<open>JavaScript values and objects\<close>

text \<open>
  The module \<^verbatim>\<open>Object3DBehaviors.ts\<close> works on mutable objects of the three.js
  scene graph and on entities of the engine's ECS. Objects live in a store and are
  named by their address, so that aliasing (a node reached from its parent, from an
  entity's component and from a property of another object) is kept.

  A JavaScript value is \<^verbatim>\<open>undefined\<close>, \<^verbatim>\<open>null\<close>, a boolean, a number, a string or a
  reference to an object. Numbers are integers here: the module does no arithmetic, it
  only tests a value for truthiness and for its \<^verbatim>\<open>typeof\<close>. Functions and arrays are not
  values of the model: a method is a HOL function on the store, and the one array the
  module reads, a node's \<^verbatim>\<open>children\<close>, is a typed field of the object.

  The module runs in strict mode (it is an ECMAScript module).
\<close>

type_synonym addr = nat
type_synonym entity_id = nat

datatype jsval = JUndefined | JNull | JBool bool | JNum int | JStr string | JObj addr

text \<open>
  An object: whether it is an instance of three.js \<^verbatim>\<open>Color\<close>, its properties by name, and
  for scene-graph nodes the links \<^verbatim>\<open>parent\<close>, \<^verbatim>\<open>children\<close> and the back-reference
  \<^verbatim>\<open>entity\<close> that \<^verbatim>\<open>addObject3DComponent\<close> writes. The three links are typed fields;
  every other property (\<^verbatim>\<open>type\<close>, \<^verbatim>\<open>isMesh\<close>, \<^verbatim>\<open>panner\<close>, \<^verbatim>\<open>material\<close>,
  \<^verbatim>\<open>castShadow\<close>, ...) whose value is a value of the model is an entry of \<open>props\<close>,
  whether the object owns it or inherits it.

  An object has members that the store does not hold: its methods (\<^verbatim>\<open>traverse\<close>,
  \<^verbatim>\<open>add\<close>, \<^verbatim>\<open>constructor\<close>, \<^verbatim>\<open>toString\<close>, ...), members that are arrays, and
  accessors such as \<^verbatim>\<open>__proto__\<close>. Their names are listed in \<open>opaque\<close>. The members that
  cannot be assigned, as \<^verbatim>\<open>position\<close>, \<^verbatim>\<open>rotation\<close>, \<^verbatim>\<open>quaternion\<close> and \<^verbatim>\<open>scale\<close>
  of a three.js node, which are defined not writable, are listed in \<open>readonly\<close>.
\<close>

record jsobj =
  instanceofColor :: bool
  props :: "string \<Rightarrow> jsval option"
  parent :: "addr option"
  children :: "addr list"
  entity :: "entity_id option"
  opaque :: "string list"
  readonly :: "string list"

text \<open>Reading a property that the object does not have gives \<^verbatim>\<open>undefined\<close>.\<close>

definition getProp :: "jsobj \<Rightarrow> string \<Rightarrow> jsval" where
  "getProp ob p = (case props ob p of None \<Rightarrow> JUndefined | Some v \<Rightarrow> v)"

text \<open>JavaScript truthiness: \<^verbatim>\<open>undefined\<close>, \<^verbatim>\<open>null\<close>, \<^verbatim>\<open>false\<close>, \<^verbatim>\<open>0\<close> and \<^verbatim>\<open>''\<close> are falsy.\<close>

fun truthy :: "jsval \<Rightarrow> bool" where
  "truthy JUndefined = False"
| "truthy JNull = False"
| "truthy (JBool b) = b"
| "truthy (JNum n) = (n \<noteq> 0)"
| "truthy (JStr s) = (s \<noteq> [])"
| "truthy (JObj a) = True"

section \<open>Component types\<close>

text \<open>
  The component classes the module names: the scene-node reference
  \<^verbatim>\<open>Object3DComponent\<close>, the thirty tag components imported from
  \<^verbatim>\<open>Object3DTagComponents\<close>, \<^verbatim>\<open>SkyboxComponent\<close>, the \<^verbatim>\<open>TransformComponent\<close> of
  \<^verbatim>\<open>GameObject\<close>, and any other component class of the engine.
\<close>

datatype ctype =
    Object3DComponent
  | TransformComponent
  | SkyboxComponent
  | AmbientLightProbeTagComponent
  | AmbientLightTagComponent
  | ArrayCameraTagComponent
  | AudioListenerTagComponent
  | AudioTagComponent
  | BoneTagComponent
  | CameraTagComponent
  | CubeCameraTagComponent
  | DirectionalLightTagComponent
  | GroupTagComponent
  | HemisphereLightProbeTagComponent
  | HemisphereLightTagComponent
  | ImmediateRenderObjectTagComponent
  | InstancedMeshTagComponent
  | LightProbeTagComponent
  | LightTagComponent
  | LineSegmentsTagComponent
  | LineTagComponent
  | LODTagComponent
  | MeshTagComponent
  | OrthographicCameraTagComponent
  | PerspectiveCameraTagComponent
  | PointLightTagComponent
  | PointsTagComponent
  | PositionalAudioTagComponent
  | RectAreaLightTagComponent
  | SceneTagComponent
  | SkinnedMeshTagComponent
  | SpotLightTagComponent
  | SpriteTagComponent
  | OtherComponent nat

section \<open>Tag dispatch: \<^verbatim>\<open>getComponentTags\<close>\<close>

text \<open>\<^verbatim>\<open>object3d.type === name\<close> and the truthiness of a marker such as \<^verbatim>\<open>isMesh\<close>.\<close>

definition typeIs :: "string \<Rightarrow> jsobj \<Rightarrow> bool" where
  "typeIs name object3d = (getProp object3d ''type'' = JStr name)"

definition marker :: "string \<Rightarrow> jsobj \<Rightarrow> bool" where
  "marker name object3d = truthy (getProp object3d name)"

text \<open>\<^verbatim>\<open>object3d.type === 'Audio' && object3d.panner !== undefined\<close>\<close>

definition positionalAudio :: "jsobj \<Rightarrow> bool" where
  "positionalAudio object3d =
     (typeIs ''Audio'' object3d \<and> getProp object3d ''panner'' \<noteq> JUndefined)"

text \<open>
  The \<^verbatim>\<open>if\<close> / \<^verbatim>\<open>else if\<close> chain of \<^verbatim>\<open>getComponentTags\<close> (source lines 226 to 299): the
  list of components the chain pushes, in the order of the pushes.
\<close>

definition tagChain :: "jsobj \<Rightarrow> ctype list" where
  "tagChain object3d =
    (if positionalAudio object3d then [PositionalAudioTagComponent]
     else if typeIs ''Audio'' object3d then [AudioTagComponent]
     else if typeIs ''AudioListener'' object3d then [AudioListenerTagComponent]
     else if marker ''isCamera'' object3d then
       [CameraTagComponent]
       @ (if marker ''isOrthographicCamera'' object3d then [OrthographicCameraTagComponent]
          else if marker ''isPerspectiveCamera'' object3d then [PerspectiveCameraTagComponent]
          else [])
       @ (if marker ''isArrayCamera'' object3d then [ArrayCameraTagComponent]
          else if typeIs ''CubeCamera'' object3d then [CubeCameraTagComponent]
          else if marker ''isImmediateRenderObject'' object3d
            then [ImmediateRenderObjectTagComponent]
          else [])
     else if marker ''isLight'' object3d then
       [LightTagComponent]
       @ (if marker ''isAmbientLight'' object3d then [AmbientLightTagComponent]
          else if marker ''isDirectionalLight'' object3d then [DirectionalLightTagComponent]
          else if marker ''isHemisphereLight'' object3d then [HemisphereLightTagComponent]
          else if marker ''isPointLight'' object3d then [PointLightTagComponent]
          else if marker ''isRectAreaLight'' object3d then [RectAreaLightTagComponent]
          else if marker ''isSpotLight'' object3d then [SpotLightTagComponent]
          else [])
     else if marker ''isLightProbe'' object3d then
       [LightProbeTagComponent]
       @ (if marker ''isAmbientLightProbe'' object3d then [AmbientLightProbeTagComponent]
          else if marker ''isHemisphereLightProbe'' object3d
            then [HemisphereLightProbeTagComponent]
          else [])
     else if marker ''isBone'' object3d then [BoneTagComponent]
     else if marker ''isGroup'' object3d then [GroupTagComponent]
     else if marker ''isLOD'' object3d then [LODTagComponent]
     else if marker ''isMesh'' object3d then
       [MeshTagComponent]
       @ (if marker ''isInstancedMesh'' object3d then [InstancedMeshTagComponent]
          else if marker ''isSkinnedMesh'' object3d then [SkinnedMeshTagComponent]
          else [])
     else if marker ''isLine'' object3d then
       [LineTagComponent]
       @ (if marker ''isLineLoop'' object3d then [HemisphereLightProbeTagComponent]
          else if marker ''isLineSegments'' object3d then [LineSegmentsTagComponent]
          else [])
     else if marker ''isPoints'' object3d then [PointsTagComponent]
     else if marker ''isSprite'' object3d then [SpriteTagComponent]
     else if marker ''isScene'' object3d then [SceneTagComponent]
     else if marker ''isSky'' object3d then [SkyboxComponent]
     else [])"

text \<open>
  \<^verbatim>\<open>getComponentTags\<close>: the free-standing first \<^verbatim>\<open>if\<close> (lines 223 to 225) pushes, then the
  chain pushes.
\<close>

definition getComponentTags :: "jsobj \<Rightarrow> ctype list" where
  "getComponentTags object3d =
     (if positionalAudio object3d then [PositionalAudioTagComponent] else [])
     @ tagChain object3d"

text \<open>
  The variant the specification compares with: \<^verbatim>\<open>getComponentTags\<close> with its first
  positional-audio check removed.
\<close>

definition getComponentTags_without_first_check :: "jsobj \<Rightarrow> ctype list" where
  "getComponentTags_without_first_check object3d = [] @ tagChain object3d"

text \<open>A bare object with the given properties, and a node of type \<^verbatim>\<open>Audio\<close> with a panner.\<close>

definition plainObject :: "(string \<Rightarrow> jsval option) \<Rightarrow> jsobj" where
  "plainObject ps =
     \<lparr>instanceofColor = False, props = ps, parent = None, children = [], entity = None,
      opaque = [], readonly = []\<rparr>"

definition positionalAudioNode :: jsobj where
  "positionalAudioNode =
     plainObject ((\<lambda>_. None)(''type'' \<mapsto> JStr ''Audio'', ''panner'' \<mapsto> JObj 7))"

section \<open>The engine state\<close>

text \<open>
  Modelled from the spec: the ECS runtime (\<^verbatim>\<open>ecs/functions/EntityFunctions\<close>,
  \<^verbatim>\<open>ecs/classes/Entity\<close>, \<^verbatim>\<open>ecs/classes/Engine\<close>) is part of the repository and not
  among the source files. The specification describes it as entity and component
  operations (\<^verbatim>\<open>hasComponent\<close>, \<^verbatim>\<open>getComponent\<close>, \<^verbatim>\<open>addComponent\<close>,
  \<^verbatim>\<open>removeComponent\<close>, \<^verbatim>\<open>removeEntity\<close>) and an entity's live list of attached component
  types; an entity owns its components by type. An entity is therefore the list of its
  attached components, each under its type, in the order of attachment.

  A component carries the field \<^verbatim>\<open>value\<close>: the node of an \<^verbatim>\<open>Object3DComponent\<close>, and
  \<open>None\<close> (\<^verbatim>\<open>undefined\<close>) for a component without that field.
\<close>

record component =
  cvalue :: "addr option"

type_synonym entityRec = "(ctype \<times> component) list"

text \<open>
  The exception the module can raise is the \<^verbatim>\<open>TypeError\<close> of the language. \<open>Unmodelled\<close>
  is not an exception: it is the outcome of a step that reads a member which the store
  does not hold (a link, a method, a member of a number). What the code does from there
  the model does not say, and no theorem below speaks of such a run.
\<close>

datatype error = TypeError | Unmodelled

text \<open>
  The state: the object store with its next free address, \<^verbatim>\<open>Engine.scene\<close>,
  \<^verbatim>\<open>Engine.csm\<close> (\<open>None\<close> when it is \<^verbatim>\<open>undefined\<close>, else the materials handed to its
  \<^verbatim>\<open>setupMaterial\<close>), the entities, the entity removals requested from the ECS with
  their \<^verbatim>\<open>forceImmediate\<close> flag, and the number of \<^verbatim>\<open>console.warn\<close> calls.
\<close>

record state =
  heap :: "addr \<Rightarrow> jsobj"
  nxt :: addr
  scene :: addr
  csm :: "jsval list option"
  entities :: "entity_id \<Rightarrow> entityRec"
  removals :: "(entity_id \<times> bool) list"
  warnings :: nat

subsection \<open>Entity functions\<close>

text \<open>Modelled from the spec: \<^verbatim>\<open>entity.componentTypes\<close>, the live list of attached types.\<close>

definition componentTypes :: "state \<Rightarrow> entity_id \<Rightarrow> ctype list" where
  "componentTypes s e = map fst (entities s e)"

text \<open>Modelled from the spec: \<^verbatim>\<open>hasComponent\<close> of \<^verbatim>\<open>EntityFunctions\<close>.\<close>

definition hasComponent :: "state \<Rightarrow> entity_id \<Rightarrow> ctype \<Rightarrow> bool" where
  "hasComponent s e C = (C \<in> set (componentTypes s e))"

text \<open>
  Modelled from the spec: \<^verbatim>\<open>getComponent\<close> of \<^verbatim>\<open>EntityFunctions\<close>. The result is absent
  (\<^verbatim>\<open>undefined\<close>, here \<open>None\<close>) when the entity has no component of the type, which is
  what \<^verbatim>\<open>getObject3D\<close> tests for. The specification knows no components kept after
  their removal, so the third argument \<^verbatim>\<open>includeRemoved\<close> changes nothing.
\<close>

definition getComponent :: "state \<Rightarrow> entity_id \<Rightarrow> ctype \<Rightarrow> bool \<Rightarrow> component option" where
  "getComponent s e C includeRemoved = map_of (entities s e) C"

text \<open>
  Modelled from the spec: \<^verbatim>\<open>addComponent\<close> of \<^verbatim>\<open>EntityFunctions\<close>. Components are owned
  by type: adding a type the entity already has attaches no second component.
\<close>

definition addComponent :: "entity_id \<Rightarrow> ctype \<Rightarrow> addr option \<Rightarrow> state \<Rightarrow> state" where
  "addComponent e C v s =
     (if hasComponent s e C then s
      else s\<lparr>entities := (entities s)(e := entities s e @ [(C, \<lparr>cvalue = v\<rparr>)])\<rparr>)"

text \<open>
  Modelled from the spec: \<^verbatim>\<open>removeComponent\<close> of \<^verbatim>\<open>EntityFunctions\<close>: the component of
  that type leaves the entity's live list, in place.
\<close>

fun removeFirst :: "ctype \<Rightarrow> entityRec \<Rightarrow> entityRec" where
  "removeFirst C [] = []"
| "removeFirst C (x # xs) = (if fst x = C then xs else x # removeFirst C xs)"

definition removeComponent :: "entity_id \<Rightarrow> ctype \<Rightarrow> bool option \<Rightarrow> state \<Rightarrow> state" where
  "removeComponent e C forceImmediate s =
     s\<lparr>entities := (entities s)(e := removeFirst C (entities s e))\<rparr>"

text \<open>
  Modelled from the spec: \<^verbatim>\<open>removeEntity\<close> of \<^verbatim>\<open>EntityFunctions\<close> removes the entity from
  the ECS, at once or at the next scheduling boundary as the flag says. The model
  records the request with its flag.
\<close>

definition removeEntity :: "entity_id \<Rightarrow> bool \<Rightarrow> state \<Rightarrow> state" where
  "removeEntity e forceImmediate s = s\<lparr>removals := removals s @ [(e, forceImmediate)]\<rparr>"

subsection \<open>Scene-graph operations of three.js\<close>

definition updateObj :: "addr \<Rightarrow> (jsobj \<Rightarrow> jsobj) \<Rightarrow> state \<Rightarrow> state" where
  "updateObj a f s = s\<lparr>heap := (heap s)(a := f (heap s a))\<rparr>"

definition writeProp :: "addr \<Rightarrow> string \<Rightarrow> jsval \<Rightarrow> state \<Rightarrow> state" where
  "writeProp a p v s = updateObj a (\<lambda>ob. ob\<lparr>props := (props ob)(p \<mapsto> v)\<rparr>) s"

definition setParent :: "addr \<Rightarrow> addr option \<Rightarrow> state \<Rightarrow> state" where
  "setParent a p s = updateObj a (\<lambda>ob. ob\<lparr>parent := p\<rparr>) s"

definition setChildren :: "addr \<Rightarrow> addr list \<Rightarrow> state \<Rightarrow> state" where
  "setChildren a cs s = updateObj a (\<lambda>ob. ob\<lparr>children := cs\<rparr>) s"

definition setEntity :: "addr \<Rightarrow> entity_id option \<Rightarrow> state \<Rightarrow> state" where
  "setEntity a e s = updateObj a (\<lambda>ob. ob\<lparr>entity := e\<rparr>) s"

text \<open>
  \<^verbatim>\<open>Object3D.remove(object)\<close> of three.js: when the object is among the children, its
  parent becomes \<^verbatim>\<open>null\<close> and it is spliced out of the children at its index.
\<close>

definition object3D_remove :: "addr \<Rightarrow> addr \<Rightarrow> state \<Rightarrow> state" where
  "object3D_remove this object s =
     (if object \<in> set (children (heap s this)) then
        (let s1 = setParent object None s
         in setChildren this (remove1 object (children (heap s1 this))) s1)
      else s)"

text \<open>
  \<^verbatim>\<open>Object3D.add(object)\<close> of three.js: an object is not added to itself; otherwise it
  leaves its current parent, gets the new one and is pushed onto the children.
\<close>

definition object3D_add :: "addr \<Rightarrow> addr \<Rightarrow> state \<Rightarrow> state" where
  "object3D_add this object s =
     (if object = this then s
      else
        (let s1 = (case parent (heap s object) of
                     Some p \<Rightarrow> object3D_remove p object s
                   | None \<Rightarrow> s);
             s2 = setParent object (Some this) s1
         in setChildren this (children (heap s2 this) @ [object]) s2))"

text \<open>
  \<^verbatim>\<open>Object3D.traverse(callback)\<close> of three.js: the callback on the node, then the
  traversal of each child in order. The recursion follows the \<^verbatim>\<open>children\<close> links of the
  store, which need not be well founded, so it takes fuel: \<open>None\<close> is a traversal that
  did not return within the nesting depth given.
\<close>

fun forEachOpt :: "('a \<Rightarrow> 's \<Rightarrow> 's option) \<Rightarrow> 'a list \<Rightarrow> 's \<Rightarrow> 's option" where
  "forEachOpt f [] s = Some s"
| "forEachOpt f (x # xs) s = (case f x s of None \<Rightarrow> None | Some s' \<Rightarrow> forEachOpt f xs s')"

fun traverse :: "nat \<Rightarrow> (addr \<Rightarrow> state \<Rightarrow> state) \<Rightarrow> addr \<Rightarrow> state \<Rightarrow> state option" where
  "traverse 0 callback this s = None"
| "traverse (Suc fuel) callback this s =
     (let s1 = callback this s
      in forEachOpt (traverse fuel callback) (children (heap s1 this)) s1)"

section \<open>Node attachment: \<^verbatim>\<open>addObject3DComponent\<close>\<close>

subsection \<open>\<^verbatim>\<open>applyDeepValue\<close>\<close>

text \<open>
  \<^verbatim>\<open>path.match(/(?<property>[^.]+)(\.(?<nextPath>.*))?/)?.groups\<close>. The expression is
  not anchored: the match starts at the first character that is not a dot, \<^verbatim>\<open>property\<close>
  is the run of characters up to the next dot, and \<^verbatim>\<open>nextPath\<close>, when a dot follows, is
  what follows the dot up to the first line terminator (\<^verbatim>\<open>.\<close> does not match one). A
  path without such a character has no match. Strings are lists of 8-bit characters, so
  the line terminators are line feed and carriage return.
\<close>

definition lineTerminator :: "char \<Rightarrow> bool" where
  "lineTerminator c = (c = CHR 0x0A \<or> c = CHR 0x0D)"

definition pathGroups :: "string \<Rightarrow> (string \<times> string option) option" where
  "pathGroups path =
     (let p = dropWhile (\<lambda>c. c = CHR ''.'') path
      in if p = [] then None
         else Some (takeWhile (\<lambda>c. c \<noteq> CHR ''.'') p,
                    case dropWhile (\<lambda>c. c \<noteq> CHR ''.'') p of
                      [] \<Rightarrow> None
                    | dot # rest \<Rightarrow> Some (takeWhile (\<lambda>c. \<not> lineTerminator c) rest)))"

text \<open>
  \<^verbatim>\<open>subj[property]\<close> for a truthy \<^verbatim>\<open>subj\<close>, as far as the store holds it: \<open>None\<close> is a
  member that the store does not hold.

  \<^item> Of an object, the links and the members listed in \<open>opaque\<close> are not held; every
    other name is read from \<open>props\<close>, and a name without an entry gives \<^verbatim>\<open>undefined\<close>.
  \<^item> A string has the member \<^verbatim>\<open>length\<close>. Its other members (characters by index, the
    methods of its prototype) are not held.
  \<^item> The members of a number and of \<^verbatim>\<open>true\<close> are the methods of their prototypes, and are
    not held.
\<close>

definition linkField :: "string \<Rightarrow> bool" where
  "linkField p = (p = ''parent'' \<or> p = ''children'' \<or> p = ''entity'')"

definition member :: "state \<Rightarrow> jsval \<Rightarrow> string \<Rightarrow> jsval option" where
  "member s subj p =
     (case subj of
        JObj a \<Rightarrow>
          if linkField p \<or> p \<in> set (opaque (heap s a)) then None
          else Some (getProp (heap s a) p)
      | JStr t \<Rightarrow> if p = ''length'' then Some (JNum (int (length t))) else None
      | _ \<Rightarrow> None)"

definition instanceofColorVal :: "state \<Rightarrow> jsval \<Rightarrow> bool" where
  "instanceofColorVal s v = (case v of JObj a \<Rightarrow> instanceofColor (heap s a) | _ \<Rightarrow> False)"

definition typeofNumberOrString :: "jsval \<Rightarrow> bool" where
  "typeofNumberOrString v = (case v of JNum n \<Rightarrow> True | JStr t \<Rightarrow> True | _ \<Rightarrow> False)"

text \<open>
  \<^verbatim>\<open>new Color(value)\<close>: a fresh object that is an instance of \<^verbatim>\<open>Color\<close>. Its fields are
  what the constructor of three.js computes from the value; the constructor is a
  parameter, \<open>newColor\<close>. The members that the store does not hold come from the
  prototype of \<^verbatim>\<open>Color\<close>, so they are those of the \<^verbatim>\<open>Color\<close> that is replaced.
\<close>

definition allocObj :: "jsobj \<Rightarrow> state \<Rightarrow> state" where
  "allocObj ob s = s\<lparr>heap := (heap s)(nxt s := ob), nxt := Suc (nxt s)\<rparr>"

definition colorObject :: "(jsval \<Rightarrow> string \<Rightarrow> jsval option) \<Rightarrow> jsobj \<Rightarrow> jsval \<Rightarrow> jsobj" where
  "colorObject newColor old v =
     \<lparr>instanceofColor = True, props = newColor v, parent = None, children = [],
      entity = None, opaque = opaque old, readonly = readonly old\<rparr>"

text \<open>
  The assignment at the end of \<^verbatim>\<open>applyDeepValue\<close> (source lines 119 to 123), reached
  when \<^verbatim>\<open>subj[property]\<close> is not \<^verbatim>\<open>undefined\<close>. In strict mode the assignment to a member
  of a string, a number or a boolean raises a \<^verbatim>\<open>TypeError\<close>, and so does the assignment to
  a member that is not writable.
\<close>

definition oldColor :: "state \<Rightarrow> addr \<Rightarrow> string \<Rightarrow> jsobj" where
  "oldColor s a property =
     (case getProp (heap s a) property of JObj c \<Rightarrow> heap s c | _ \<Rightarrow> heap s a)"

definition assignValue ::
  "(jsval \<Rightarrow> string \<Rightarrow> jsval option) \<Rightarrow> jsval \<Rightarrow> string \<Rightarrow> jsval \<Rightarrow> state \<Rightarrow> error + state"
  where
  "assignValue newColor subj property v s =
     (case subj of
        JObj a \<Rightarrow>
          if property \<in> set (readonly (heap s a)) then Inl TypeError
          else if instanceofColorVal s (getProp (heap s a) property) \<and> typeofNumberOrString v
          then Inr (writeProp a property (JObj (nxt s))
                      (allocObj (colorObject newColor (oldColor s a property) v) s))
          else Inr (writeProp a property v s)
      | _ \<Rightarrow> Inl TypeError)"

lemma pathGroups_Some:
  "pathGroups path = Some (property, nextPath) \<Longrightarrow>
     property = takeWhile (\<lambda>c. c \<noteq> CHR ''.'') (dropWhile (\<lambda>c. c = CHR ''.'') path)
   \<and> nextPath = (case dropWhile (\<lambda>c. c \<noteq> CHR ''.'') (dropWhile (\<lambda>c. c = CHR ''.'') path) of
                      [] \<Rightarrow> None
                    | dot # rest \<Rightarrow> Some (takeWhile (\<lambda>c. \<not> lineTerminator c) rest))"
  unfolding pathGroups_def Let_def by (simp split: if_splits)

lemma pathGroups_shorter:
  assumes a: "pathGroups path = Some (property, Some nextPath)"
  shows "length nextPath < length path"
proof -
  let ?p = "dropWhile (\<lambda>c. c = CHR ''.'') path"
  let ?r = "dropWhile (\<lambda>c. c \<noteq> CHR ''.'') ?p"
  from pathGroups_Some[OF a] have
    "Some nextPath = (case ?r of [] \<Rightarrow> None
                    | dot # rest \<Rightarrow> Some (takeWhile (\<lambda>c. \<not> lineTerminator c) rest))"
    by simp
  then obtain dot rest where r: "?r = dot # rest"
    and n: "nextPath = takeWhile (\<lambda>c. \<not> lineTerminator c) rest"
    by (cases ?r) simp_all
  have "length nextPath \<le> length rest"
    unfolding n by (rule length_takeWhile_le)
  also have "length rest < length ?r" by (simp add: r)
  also have "length ?r \<le> length ?p" by (rule length_dropWhile_le)
  also have "length ?p \<le> length path" by (rule length_dropWhile_le)
  finally show ?thesis .
qed

text \<open>
  \<^verbatim>\<open>applyDeepValue\<close> (lines 99 to 124). It returns the state it leaves, raises a
  \<^verbatim>\<open>TypeError\<close>, or steps on a member that the store does not hold.
\<close>

function applyDeepValue ::
  "(jsval \<Rightarrow> string \<Rightarrow> jsval option) \<Rightarrow> jsval \<Rightarrow> string \<Rightarrow> jsval \<Rightarrow> state \<Rightarrow> error + state"
  where
  "applyDeepValue newColor subj path v s =
     (if \<not> truthy subj then Inr (s\<lparr>warnings := Suc (warnings s)\<rparr>)
      else
        (case pathGroups path of
           None \<Rightarrow> Inr s
         | Some (property, nextPath) \<Rightarrow>
             if property = [] then Inr s
             else
               (case member s subj property of
                  None \<Rightarrow> Inl Unmodelled
                | Some x \<Rightarrow>
                    if x = JUndefined then Inr s
                    else
                      (case nextPath of
                         None \<Rightarrow> assignValue newColor subj property v s
                       | Some np \<Rightarrow>
                           if np \<noteq> [] then applyDeepValue newColor x np v s
                           else assignValue newColor subj property v s))))"
  by pat_completeness auto
termination
proof (relation "measure (\<lambda>(newColor, subj, path, v, s). length path)", goal_cases)
  case 1
  show ?case by simp
next
  case (2 newColor subj path v s x2 property nextPath x np)
  then have "pathGroups path = Some (property, Some np)" by simp
  then have "length np < length path" by (rule pathGroups_shorter)
  then show ?case by simp
qed

declare applyDeepValue.simps [simp del]

subsection \<open>The shadow policy\<close>

text \<open>
  \<^verbatim>\<open>obj.material?.userData?.gltfExtensions?.MOZ_lightmap\<close>: each \<^verbatim>\<open>?.\<close> gives
  \<^verbatim>\<open>undefined\<close> on \<^verbatim>\<open>undefined\<close> and \<^verbatim>\<open>null\<close>, and reads the property otherwise. The
  three names read are data properties: of an object they are read from \<open>props\<close>, and no
  boolean, number or string has a member of such a name, so there the read gives
  \<^verbatim>\<open>undefined\<close>.
\<close>

definition readProp :: "state \<Rightarrow> jsval \<Rightarrow> string \<Rightarrow> jsval" where
  "readProp s subj p = (case subj of JObj a \<Rightarrow> getProp (heap s a) p | _ \<Rightarrow> JUndefined)"

definition lightmap :: "state \<Rightarrow> addr \<Rightarrow> jsval" where
  "lightmap s obj =
     readProp s (readProp s (readProp s (getProp (heap s obj) ''material'') ''userData'')
       ''gltfExtensions'') ''MOZ_lightmap''"

text \<open>
  \<^verbatim>\<open>Engine.csm?.setupMaterial(material)\<close>: nothing when \<^verbatim>\<open>Engine.csm\<close> is undefined;
  otherwise the material is handed to the shadow-map library.
\<close>

definition setupMaterial :: "jsval \<Rightarrow> state \<Rightarrow> state" where
  "setupMaterial material s =
     (case csm s of None \<Rightarrow> s | Some ms \<Rightarrow> s\<lparr>csm := Some (ms @ [material])\<rparr>)"

text \<open>The callback of \<^verbatim>\<open>object3d.traverse\<close> in \<^verbatim>\<open>addObject3DComponent\<close> (lines 133 to 144).\<close>

definition shadowCallback :: "addr \<Rightarrow> state \<Rightarrow> state" where
  "shadowCallback obj s =
     (if typeIs ''Mesh'' (heap s obj) \<or> typeIs ''SkinnedMesh'' (heap s obj) then
        (let s1 = writeProp obj ''castShadow'' (JBool True) s
         in if \<not> truthy (lightmap s1 obj) then
              (let s2 = writeProp obj ''receiveShadow'' (JBool True) s1
               in if truthy (getProp (heap s2 obj) ''material'')
                  then setupMaterial (getProp (heap s2 obj) ''material'') s2
                  else s2)
            else s1)
      else s)"

subsection \<open>\<^verbatim>\<open>addObject3DComponent\<close>\<close>

text \<open>
  The argument \<^verbatim>\<open>args.obj3d\<close> is a node (\<^verbatim>\<open>typeof args.obj3d === 'object'\<close>) or a
  constructor; a constructor is given by the object that \<^verbatim>\<open>new args.obj3d()\<close> builds.
  \<^verbatim>\<open>args.objArgs\<close> is absent or a property map, given by its entries in the order of
  \<^verbatim>\<open>Object.keys\<close>; \<^verbatim>\<open>args.parentEntity\<close> is absent or an entity.
\<close>

datatype obj3dArg = Instance addr | Constructor jsobj

record args =
  obj3d :: obj3dArg
  objArgs :: "(string \<times> jsval) list option"
  parentEntity :: "entity_id option"

text \<open>Lines 126 and 127: the node itself, or a new one.\<close>

definition instantiate :: "obj3dArg \<Rightarrow> state \<Rightarrow> addr \<times> state" where
  "instantiate a s =
     (case a of Instance object3d \<Rightarrow> (object3d, s) | Constructor ob \<Rightarrow> (nxt s, allocObj ob s))"

text \<open>
  Lines 129 to 131: \<^verbatim>\<open>applyDeepValue\<close> for every key of \<^verbatim>\<open>args.objArgs\<close>, in order; an
  exception ends the loop and the call.
\<close>

fun applyEntries ::
  "(jsval \<Rightarrow> string \<Rightarrow> jsval option) \<Rightarrow> addr \<Rightarrow> (string \<times> jsval) list \<Rightarrow> state \<Rightarrow> error + state"
  where
  "applyEntries newColor object3d [] s = Inr s"
| "applyEntries newColor object3d ((key, v) # kvs) s =
     (case applyDeepValue newColor (JObj object3d) key v s of
        Inl err \<Rightarrow> Inl err
      | Inr s' \<Rightarrow> applyEntries newColor object3d kvs s')"

definition applyObjArgs ::
  "(jsval \<Rightarrow> string \<Rightarrow> jsval option) \<Rightarrow> addr \<Rightarrow> (string \<times> jsval) list option \<Rightarrow> state
     \<Rightarrow> error + state" where
  "applyObjArgs newColor object3d oa s =
     (case oa of None \<Rightarrow> Inr s | Some kvs \<Rightarrow> applyEntries newColor object3d kvs s)"

text \<open>
  Lines 126 to 131 together: the node and the state with which the walk of line 133
  starts.
\<close>

definition prepared ::
  "(jsval \<Rightarrow> string \<Rightarrow> jsval option) \<Rightarrow> args \<Rightarrow> state \<Rightarrow> error + addr \<times> state" where
  "prepared newColor a s =
     (case instantiate (obj3d a) s of
        (object3d, s1) \<Rightarrow>
          (case applyObjArgs newColor object3d (objArgs a) s1 of
             Inl err \<Rightarrow> Inl err
           | Inr s2 \<Rightarrow> Inr (object3d, s2)))"

text \<open>Lines 146 to 152: the scene-node reference, then every tag of the node.\<close>

definition attachComponents :: "entity_id \<Rightarrow> addr \<Rightarrow> state \<Rightarrow> state" where
  "attachComponents e object3d s =
     (let s1 = addComponent e Object3DComponent (Some object3d) s
      in fold (\<lambda>C. addComponent e C None) (getComponentTags (heap s1 object3d)) s1)"

text \<open>
  Lines 153 to 156: under the parent entity's node, or under \<^verbatim>\<open>Engine.scene\<close>; then the
  back-reference. \<^verbatim>\<open>getComponent(...).value.add\<close> raises a \<^verbatim>\<open>TypeError\<close> when the component
  or its value is absent.
\<close>

definition addToParent :: "entity_id option \<Rightarrow> addr \<Rightarrow> state \<Rightarrow> error + state" where
  "addToParent pe object3d s =
     (case pe of
        None \<Rightarrow> Inr (object3D_add (scene s) object3d s)
      | Some p \<Rightarrow>
          if hasComponent s p Object3DComponent then
            (case getComponent s p Object3DComponent False of
               None \<Rightarrow> Inl TypeError
             | Some c \<Rightarrow>
                 (case cvalue c of
                    None \<Rightarrow> Inl TypeError
                  | Some parentNode \<Rightarrow> Inr (object3D_add parentNode object3d s)))
          else Inr (object3D_add (scene s) object3d s))"

definition insertNode :: "entity_id \<Rightarrow> addr \<Rightarrow> entity_id option \<Rightarrow> state \<Rightarrow> error + state" where
  "insertNode e object3d pe s =
     (case addToParent pe object3d s of
        Inl err \<Rightarrow> Inl err
      | Inr s1 \<Rightarrow> Inr (setEntity object3d (Some e) s1))"

text \<open>
  Lines 133 to 157, the part of \<^verbatim>\<open>addObject3DComponent\<close> that follows the property map:
  the walk with the shadow policy, the components, the insertion into the scene graph.
  \<open>None\<close> is a walk that did not return within the fuel.
\<close>

definition attachNode ::
  "nat \<Rightarrow> entity_id \<Rightarrow> addr \<Rightarrow> entity_id option \<Rightarrow> state \<Rightarrow> (error + state) option" where
  "attachNode fuel e object3d pe s =
     (case traverse fuel shadowCallback object3d s of
        None \<Rightarrow> None
      | Some s3 \<Rightarrow> Some (insertNode e object3d pe (attachComponents e object3d s3)))"

definition addObject3DComponent ::
  "(jsval \<Rightarrow> string \<Rightarrow> jsval option) \<Rightarrow> nat \<Rightarrow> entity_id \<Rightarrow> args \<Rightarrow> state
     \<Rightarrow> (error + state) option" where
  "addObject3DComponent newColor fuel e a s =
     (case prepared newColor a s of
        Inl err \<Rightarrow> Some (Inl err)
      | Inr (object3d, s2) \<Rightarrow> attachNode fuel e object3d (parentEntity a) s2)"

section \<open>Node lookup: \<^verbatim>\<open>getObject3D\<close>\<close>

text \<open>\<^verbatim>\<open>component && component.value\<close>: absent when the component is.\<close>

definition getObject3D :: "state \<Rightarrow> entity_id \<Rightarrow> addr option" where
  "getObject3D s e =
     (case getComponent s e Object3DComponent False of None \<Rightarrow> None | Some c \<Rightarrow> cvalue c)"

section \<open>Node detachment: \<^verbatim>\<open>removeObject3DComponent\<close>\<close>

text \<open>
  The loop of lines 176 to 182, from index \<open>i\<close> down to \<open>0\<close>, with \<open>Suc i\<close> as the
  argument. \<^verbatim>\<open>Component.isObject3DTagComponent\<close> is a static property of the component
  classes; their declarations are not among the source files, so the marking is a
  parameter, \<open>isObject3DTagComponent\<close>. Reading the list beyond its length gives
  \<^verbatim>\<open>undefined\<close>, whose property access raises a \<^verbatim>\<open>TypeError\<close>.
\<close>

fun removeTagComponents :: "(ctype \<Rightarrow> bool) \<Rightarrow> entity_id \<Rightarrow> nat \<Rightarrow> state \<Rightarrow> error + state" where
  "removeTagComponents isObject3DTagComponent e 0 s = Inr s"
| "removeTagComponents isObject3DTagComponent e (Suc i) s =
     (if i < length (componentTypes s e) then
        (let Component = componentTypes s e ! i
         in removeTagComponents isObject3DTagComponent e i
              (if isObject3DTagComponent Component then removeComponent e Component None s
               else s))
      else Inl TypeError)"

text \<open>
  \<^verbatim>\<open>getComponent(entity, Object3DComponent, true).value\<close> reads \<^verbatim>\<open>value\<close> off the result
  of \<^verbatim>\<open>getComponent\<close>: a \<^verbatim>\<open>TypeError\<close> when the component is absent. The test
  \<^verbatim>\<open>object3d == undefined\<close> follows it.
\<close>

definition removeObject3DComponent ::
  "(ctype \<Rightarrow> bool) \<Rightarrow> entity_id \<Rightarrow> bool \<Rightarrow> state \<Rightarrow> error + state" where
  "removeObject3DComponent isObject3DTagComponent e unparent s =
     (case getComponent s e Object3DComponent True of
        None \<Rightarrow> Inl TypeError
      | Some c \<Rightarrow>
          (case cvalue c of
             None \<Rightarrow> Inr s
           | Some object3d \<Rightarrow>
               (let s1 = object3D_remove (scene s) object3d s;
                    s2 = (if unparent then
                            (case parent (heap s1 object3d) of
                               Some p \<Rightarrow> object3D_remove p object3d s1
                             | None \<Rightarrow> s1)
                          else s1);
                    s3 = removeComponent e Object3DComponent None s2
                in case removeTagComponents isObject3DTagComponent e
                          (length (componentTypes s3 e)) s3 of
                     Inl err \<Rightarrow> Inl err
                   | Inr s4 \<Rightarrow> Inr (setEntity object3d None s4))))"

section \<open>Cascading removal: \<^verbatim>\<open>remove\<close>\<close>

text \<open>
  The callback of line 195 to 198: the \<^verbatim>\<open>if\<close> governs the call of \<^verbatim>\<open>removeEntity\<close>
  only; the back-reference is cleared for every node.
\<close>

definition removeCallback :: "bool \<Rightarrow> addr \<Rightarrow> state \<Rightarrow> state" where
  "removeCallback forceImmediate o3d s =
     setEntity o3d None
       (case entity (heap s o3d) of
          Some e' \<Rightarrow> removeEntity e' forceImmediate s
        | None \<Rightarrow> s)"

definition remove :: "nat \<Rightarrow> entity_id \<Rightarrow> bool \<Rightarrow> state \<Rightarrow> (error + state) option" where
  "remove fuel e forceImmediate s =
     (if hasComponent s e Object3DComponent then
        (case getObject3D s e of
           None \<Rightarrow> Some (Inl TypeError)
         | Some obj \<Rightarrow>
             (case traverse fuel (removeCallback forceImmediate) obj s of
                None \<Rightarrow> None
              | Some s1 \<Rightarrow>
                  (let s2 = (case parent (heap s1 obj) of
                               Some p \<Rightarrow> object3D_remove p obj s1
                             | None \<Rightarrow> s1)
                   in Some (Inr (removeEntity e forceImmediate s2)))))
      else Some (Inr (removeEntity e forceImmediate s)))"

section \<open>\<^verbatim>\<open>GameObject\<close>\<close>

text \<open>
  Modelled from the spec: \<^verbatim>\<open>addComponentToEntity\<close> and \<^verbatim>\<open>removeComponentFromEntity\<close> of
  \<^verbatim>\<open>EntityFunctions\<close>, not among the source files: the entity operations that add and
  remove a component by type.
\<close>

definition addComponentToEntity :: "entity_id \<Rightarrow> ctype \<Rightarrow> state \<Rightarrow> state" where
  "addComponentToEntity e C s = addComponent e C None s"

definition removeComponentFromEntity :: "entity_id \<Rightarrow> ctype \<Rightarrow> bool option \<Rightarrow> state \<Rightarrow> state" where
  "removeComponentFromEntity e C forceImmediate s = removeComponent e C forceImmediate s"

text \<open>
  The constructor: \<^verbatim>\<open>super()\<close> makes \<open>this\<close> an entity without components, then the
  transform is added.
\<close>

definition GameObject_constructor :: "entity_id \<Rightarrow> state \<Rightarrow> state" where
  "GameObject_constructor this s =
     addComponentToEntity this TransformComponent (s\<lparr>entities := (entities s)(this := [])\<rparr>)"

text \<open>\<^verbatim>\<open>GameObject.removeComponent\<close>: the result is \<^verbatim>\<open>this\<close>, with the state it leaves.\<close>

definition GameObject_removeComponent ::
  "entity_id \<Rightarrow> ctype \<Rightarrow> bool option \<Rightarrow> state \<Rightarrow> entity_id \<times> state" where
  "GameObject_removeComponent this component forceImmediate s =
     (this, if component \<noteq> TransformComponent
            then removeComponentFromEntity this component forceImmediate s
            else s)"


section \<open>The dispatch table of the specification\<close>

text \<open>
  The table of section 4.1 of the specification, as a table: the rows in priority order,
  each with the test of its subtype, its tag, and the groups of more specific tags. The
  first row whose test holds decides; of each of its groups the first alternative whose
  test holds is attached as well.
\<close>

type_synonym tableRow = "(jsobj \<Rightarrow> bool) \<times> ctype \<times> ((jsobj \<Rightarrow> bool) \<times> ctype) list list"

definition dispatchTable :: "tableRow list" where
  "dispatchTable =
    [(positionalAudio, PositionalAudioTagComponent, []),
     (typeIs ''Audio'', AudioTagComponent, []),
     (typeIs ''AudioListener'', AudioListenerTagComponent, []),
     (marker ''isCamera'', CameraTagComponent,
        [[(marker ''isOrthographicCamera'', OrthographicCameraTagComponent),
          (marker ''isPerspectiveCamera'', PerspectiveCameraTagComponent)],
         [(marker ''isArrayCamera'', ArrayCameraTagComponent),
          (typeIs ''CubeCamera'', CubeCameraTagComponent),
          (marker ''isImmediateRenderObject'', ImmediateRenderObjectTagComponent)]]),
     (marker ''isLight'', LightTagComponent,
        [[(marker ''isAmbientLight'', AmbientLightTagComponent),
          (marker ''isDirectionalLight'', DirectionalLightTagComponent),
          (marker ''isHemisphereLight'', HemisphereLightTagComponent),
          (marker ''isPointLight'', PointLightTagComponent),
          (marker ''isRectAreaLight'', RectAreaLightTagComponent),
          (marker ''isSpotLight'', SpotLightTagComponent)]]),
     (marker ''isLightProbe'', LightProbeTagComponent,
        [[(marker ''isAmbientLightProbe'', AmbientLightProbeTagComponent),
          (marker ''isHemisphereLightProbe'', HemisphereLightProbeTagComponent)]]),
     (marker ''isBone'', BoneTagComponent, []),
     (marker ''isGroup'', GroupTagComponent, []),
     (marker ''isLOD'', LODTagComponent, []),
     (marker ''isMesh'', MeshTagComponent,
        [[(marker ''isInstancedMesh'', InstancedMeshTagComponent),
          (marker ''isSkinnedMesh'', SkinnedMeshTagComponent)]]),
     (marker ''isLine'', LineTagComponent,
        [[(marker ''isLineLoop'', HemisphereLightProbeTagComponent),
          (marker ''isLineSegments'', LineSegmentsTagComponent)]]),
     (marker ''isPoints'', PointsTagComponent, []),
     (marker ''isSprite'', SpriteTagComponent, []),
     (marker ''isScene'', SceneTagComponent, []),
     (marker ''isSky'', SkyboxComponent, [])]"

definition firstApplicable :: "jsobj \<Rightarrow> ((jsobj \<Rightarrow> bool) \<times> ctype) list \<Rightarrow> ctype list" where
  "firstApplicable ob alternatives =
     (case find (\<lambda>(test, tag). test ob) alternatives of
        None \<Rightarrow> []
      | Some (test, tag) \<Rightarrow> [tag])"

definition tableTags :: "jsobj \<Rightarrow> ctype set" where
  "tableTags ob =
     (case find (\<lambda>(test, tag, groups). test ob) dispatchTable of
        None \<Rightarrow> {}
      | Some (test, tag, groups) \<Rightarrow> set (tag # concat (map (firstApplicable ob) groups)))"

text \<open>The tag of the first row of the table that matches the node, if one does.\<close>

definition firstRowTag :: "jsobj \<Rightarrow> ctype option" where
  "firstRowTag ob =
     map_option (\<lambda>(test, tag, groups). tag)
       (find (\<lambda>(test, tag, groups). test ob) dispatchTable)"

text \<open>The same table read row by row, for the proofs.\<close>

fun tableChain :: "tableRow list \<Rightarrow> jsobj \<Rightarrow> ctype list" where
  "tableChain [] ob = []"
| "tableChain ((test, tag, groups) # rows) ob =
     (if test ob then tag # concat (map (firstApplicable ob) groups) else tableChain rows ob)"

fun rowTag :: "tableRow list \<Rightarrow> jsobj \<Rightarrow> ctype option" where
  "rowTag [] ob = None"
| "rowTag ((test, tag, groups) # rows) ob = (if test ob then Some tag else rowTag rows ob)"

section \<open>Nodes of a subtree\<close>

text \<open>
  The subtree of a node in a store: the node and everything reached over \<^verbatim>\<open>children\<close>.
  \<open>subtreeWithin h n k a\<close>: that subtree lies below the address \<open>n\<close> and has at most \<open>k\<close>
  levels, so a traversal with fuel \<open>k\<close> visits all of it.
\<close>

inductive descendant :: "(addr \<Rightarrow> jsobj) \<Rightarrow> addr \<Rightarrow> addr \<Rightarrow> bool" for h where
  self: "descendant h a a"
| child: "c \<in> set (children (h a)) \<Longrightarrow> descendant h c b \<Longrightarrow> descendant h a b"

fun subtreeWithin :: "(addr \<Rightarrow> jsobj) \<Rightarrow> addr \<Rightarrow> nat \<Rightarrow> addr \<Rightarrow> bool" where
  "subtreeWithin h n 0 a = False"
| "subtreeWithin h n (Suc k) a = (a < n \<and> list_all (subtreeWithin h n k) (children (h a)))"


section \<open>Property paths\<close>

text \<open>
  A dotted path is given by its segments. A segment is not empty and has no dot and no
  line terminator; \<open>dottedPath\<close> joins the segments with dots.
\<close>

definition validSegment :: "string \<Rightarrow> bool" where
  "validSegment seg = (seg \<noteq> [] \<and> list_all (\<lambda>c. c \<noteq> CHR ''.'' \<and> \<not> lineTerminator c) seg)"

fun dottedPath :: "string list \<Rightarrow> string" where
  "dottedPath [] = []"
| "dottedPath [seg] = seg"
| "dottedPath (seg # rest) = seg @ CHR ''.'' # dottedPath rest"

text \<open>
  The value reached from a value over a list of member names, \<open>None\<close> when a member on
  the way is not held by the store.
\<close>

fun valueAt :: "state \<Rightarrow> jsval \<Rightarrow> string list \<Rightarrow> jsval option" where
  "valueAt s x [] = Some x"
| "valueAt s x (p # ps) = (case member s x p of None \<Rightarrow> None | Some y \<Rightarrow> valueAt s y ps)"

text \<open>
  What the assignment of a value leaves in a field that held \<open>old\<close>: the value, or the
  reference to the new \<^verbatim>\<open>Color\<close>, which is allocated at the next free address.
\<close>

definition assigned :: "state \<Rightarrow> jsval \<Rightarrow> jsval \<Rightarrow> jsval" where
  "assigned s old v =
     (if instanceofColorVal s old \<and> typeofNumberOrString v then JObj (nxt s) else v)"

section \<open>Preconditions and relations between states\<close>

text \<open>
  When the part of \<^verbatim>\<open>addObject3DComponent\<close> from line 133 on returns with the given
  fuel: the subtree of the node is allocated and has at most that many levels, and a
  parent entity that has a scene-node reference has a node in it.
\<close>

definition attachPrecondition :: "nat \<Rightarrow> addr \<Rightarrow> entity_id option \<Rightarrow> state \<Rightarrow> bool" where
  "attachPrecondition fuel object3d pe s =
     (subtreeWithin (heap s) (nxt s) fuel object3d
      \<and> (case pe of
           None \<Rightarrow> True
         | Some p \<Rightarrow>
             (case getComponent s p Object3DComponent False of
                None \<Rightarrow> True
              | Some c \<Rightarrow> cvalue c \<noteq> None)))"

text \<open>
  \<open>shadowInv s0 s\<close>: \<open>s\<close> differs from \<open>s0\<close> at most in the properties \<^verbatim>\<open>castShadow\<close>
  and \<^verbatim>\<open>receiveShadow\<close> of its objects and in the materials handed to \<^verbatim>\<open>Engine.csm\<close>.
\<close>

definition shadowInv :: "state \<Rightarrow> state \<Rightarrow> bool" where
  "shadowInv s0 s =
     (entities s = entities s0 \<and> removals s = removals s0 \<and> scene s = scene s0
      \<and> nxt s = nxt s0 \<and> warnings s = warnings s0
      \<and> (\<forall>b. children (heap s b) = children (heap s0 b)
              \<and> parent (heap s b) = parent (heap s0 b)
              \<and> entity (heap s b) = entity (heap s0 b)
              \<and> instanceofColor (heap s b) = instanceofColor (heap s0 b)
              \<and> (\<forall>p. p \<noteq> ''castShadow'' \<longrightarrow> p \<noteq> ''receiveShadow'' \<longrightarrow>
                     props (heap s b) p = props (heap s0 b) p)))"

text \<open>
  \<open>consistent s\<close>: the ownership discipline of the specification. A node's
  back-reference names the entity whose scene-node reference holds the node, an entity's
  reference holds a node whose back-reference names the entity, and no node refers to an
  entity whose removal has been requested.
\<close>

definition consistent :: "state \<Rightarrow> bool" where
  "consistent s =
     ((\<forall>n e. entity (heap s n) = Some e \<longrightarrow> getObject3D s e = Some n)
      \<and> (\<forall>e n. getObject3D s e = Some n \<longrightarrow> entity (heap s n) = Some e)
      \<and> (\<forall>n e. entity (heap s n) = Some e \<longrightarrow> e \<notin> fst ` set (removals s)))"

text \<open>\<open>parentLinkOk s obj\<close>: a node with a parent is among the parent's children, once.\<close>

definition parentLinkOk :: "state \<Rightarrow> addr \<Rightarrow> bool" where
  "parentLinkOk s obj =
     (case parent (heap s obj) of
        None \<Rightarrow> True
      | Some p \<Rightarrow> obj \<in> set (children (heap s p)) \<and> distinct (children (heap s p)))"

text \<open>
  \<open>removeInv s obj fi t\<close>: \<open>t\<close> is a state of the walk of \<^verbatim>\<open>remove\<close> that started in
  \<open>s\<close> at \<open>obj\<close>: entities and links as in \<open>s\<close>, a back-reference as in \<open>s\<close> or cleared
  with its entity's removal requested, and no request beyond those of \<open>s\<close> and those for
  entities of the subtree. \<open>removed s fi x t\<close>: the node \<open>x\<close> has been dealt with.
\<close>

definition removeInv :: "state \<Rightarrow> addr \<Rightarrow> bool \<Rightarrow> state \<Rightarrow> bool" where
  "removeInv s obj fi t =
     (entities t = entities s
      \<and> (\<forall>x. children (heap t x) = children (heap s x) \<and> parent (heap t x) = parent (heap s x))
      \<and> (\<forall>x. entity (heap t x) = entity (heap s x)
             \<or> entity (heap t x) = None
               \<and> (\<forall>e'. entity (heap s x) = Some e' \<longrightarrow> (e', fi) \<in> set (removals t)))
      \<and> set (removals s) \<subseteq> set (removals t)
      \<and> (\<forall>r \<in> set (removals t). r \<in> set (removals s)
            \<or> (\<exists>x e'. descendant (heap s) obj x \<and> entity (heap s x) = Some e' \<and> r = (e', fi))))"

definition removed :: "state \<Rightarrow> bool \<Rightarrow> addr \<Rightarrow> state \<Rightarrow> bool" where
  "removed s fi x t =
     (entity (heap t x) = None
      \<and> (\<forall>e'. entity (heap s x) = Some e' \<longrightarrow> (e', fi) \<in> set (removals t)))"

section \<open>Runs and example states\<close>

text \<open>
  A sequence of \<^verbatim>\<open>removeComponent\<close> calls on game objects: each call names its object, the
  component class and the optional \<^verbatim>\<open>forceImmediate\<close>.
\<close>

definition removeComponentCalls :: "(entity_id \<times> ctype \<times> bool option) list \<Rightarrow> state \<Rightarrow> state" where
  "removeComponentCalls calls s =
     fold (\<lambda>(this, component, forceImmediate) s'.
             snd (GameObject_removeComponent this component forceImmediate s')) calls s"

text \<open>
  A state to start from: the scene root at address 0 and nothing else, no entity with a
  component, \<^verbatim>\<open>Engine.csm\<close> undefined.
\<close>

definition initialState :: state where
  "initialState =
     \<lparr>heap = (\<lambda>a. plainObject (\<lambda>p. None)), nxt = 1, scene = 0, csm = None,
      entities = (\<lambda>e. []), removals = [], warnings = 0\<rparr>"

text \<open>
  A small scene. Address 0 is the scene root. Node 2 is a skinned mesh as a glTF loader
  leaves it: its material (3) carries the lightmap extension through \<^verbatim>\<open>userData\<close> (4)
  and \<^verbatim>\<open>gltfExtensions\<close> (5), its color (7) is a \<^verbatim>\<open>Color\<close>, and it receives shadows.
  Node 8 is a group with one child, the mesh 9, whose material (10) has no extension.
  No entity has a component. The objects have the properties given and the methods of
  their kind: those of every object, and for the nodes those of a three.js node.
\<close>

definition objectMembers :: "string list" where
  "objectMembers =
     [''constructor'', ''__proto__'', ''hasOwnProperty'', ''isPrototypeOf'',
      ''propertyIsEnumerable'', ''toLocaleString'', ''toString'', ''valueOf'',
      ''__defineGetter__'', ''__defineSetter__'', ''__lookupGetter__'', ''__lookupSetter__'']"

definition nodeMembers :: "string list" where
  "nodeMembers =
     objectMembers @
     [''traverse'', ''traverseVisible'', ''traverseAncestors'', ''add'', ''remove'', ''attach'',
      ''clear'', ''clone'', ''copy'', ''lookAt'', ''raycast'', ''toJSON'', ''updateMatrix'',
      ''updateMatrixWorld'', ''updateWorldMatrix'', ''applyMatrix4'', ''applyQuaternion'',
      ''getObjectById'', ''getObjectByName'', ''getObjectByProperty'', ''getWorldPosition'',
      ''getWorldQuaternion'', ''getWorldScale'', ''getWorldDirection'', ''localToWorld'',
      ''worldToLocal'', ''rotateOnAxis'', ''rotateOnWorldAxis'', ''rotateX'', ''rotateY'',
      ''rotateZ'', ''translateOnAxis'', ''translateX'', ''translateY'', ''translateZ'',
      ''setRotationFromAxisAngle'', ''setRotationFromEuler'', ''setRotationFromMatrix'',
      ''setRotationFromQuaternion'', ''onBeforeRender'', ''onAfterRender'',
      ''addEventListener'', ''hasEventListener'', ''removeEventListener'', ''dispatchEvent'']"

definition objectWith :: "(string \<times> jsval) list \<Rightarrow> addr option \<Rightarrow> addr list \<Rightarrow> jsobj" where
  "objectWith ps p cs =
     \<lparr>instanceofColor = False, props = map_of ps, parent = p, children = cs, entity = None,
      opaque = objectMembers, readonly = []\<rparr>"

definition nodeWith :: "(string \<times> jsval) list \<Rightarrow> addr option \<Rightarrow> addr list \<Rightarrow> jsobj" where
  "nodeWith ps p cs = (objectWith ps p cs)\<lparr>opaque := nodeMembers\<rparr>"

definition exampleHeap :: "addr \<Rightarrow> jsobj" where
  "exampleHeap =
     (\<lambda>a. plainObject (\<lambda>p. None))
     (0 := nodeWith [(''type'', JStr ''Scene''), (''isScene'', JBool True)] None [],
      2 := nodeWith [(''type'', JStr ''SkinnedMesh''), (''isMesh'', JBool True),
                     (''isSkinnedMesh'', JBool True), (''material'', JObj 3),
                     (''castShadow'', JBool False), (''receiveShadow'', JBool True)] None [],
      3 := objectWith [(''userData'', JObj 4), (''color'', JObj 7)] None [],
      4 := objectWith [(''gltfExtensions'', JObj 5)] None [],
      5 := objectWith [(''MOZ_lightmap'', JObj 6)] None [],
      6 := objectWith [(''index'', JNum 0)] None [],
      7 := (objectWith [(''r'', JNum 1), (''g'', JNum 1), (''b'', JNum 1)] None [])
             \<lparr>instanceofColor := True\<rparr>,
      8 := nodeWith [(''type'', JStr ''Group''), (''isGroup'', JBool True)] None [9],
      9 := nodeWith [(''type'', JStr ''Mesh''), (''isMesh'', JBool True),
                     (''material'', JObj 10), (''castShadow'', JBool False),
                     (''receiveShadow'', JBool False)] (Some 8) [],
      10 := objectWith [(''color'', JObj 7)] None [])"

definition exampleState :: state where
  "exampleState =
     \<lparr>heap = exampleHeap, nxt = 11, scene = 0, csm = None,
      entities = (\<lambda>e. []), removals = [], warnings = 0\<rparr>"

text \<open>The arguments that name a node and nothing else.\<close>

definition nodeArgs :: "addr \<Rightarrow> args" where
  "nodeArgs object3d = \<lparr>obj3d = Instance object3d, objArgs = None, parentEntity = None\<rparr>"

text \<open>
  A marking for the examples: the thirty classes imported from
  \<^verbatim>\<open>Object3DTagComponents\<close> are marked, no other class is.
\<close>

definition importedTag :: "ctype \<Rightarrow> bool" where
  "importedTag C =
     (case C of
        Object3DComponent \<Rightarrow> False
      | TransformComponent \<Rightarrow> False
      | SkyboxComponent \<Rightarrow> False
      | OtherComponent n \<Rightarrow> False
      | _ \<Rightarrow> True)"

text \<open>The example scene with node 2 attached to entity 0, which has a transform as well.\<close>

definition attachedState :: state where
  "attachedState =
     exampleState
       \<lparr>heap := exampleHeap(2 := (exampleHeap 2)\<lparr>parent := Some 0, entity := Some 0\<rparr>,
                             0 := (exampleHeap 0)\<lparr>children := [2]\<rparr>),
        entities := (\<lambda>e. [])
          (0 := [(TransformComponent, \<lparr>cvalue = None\<rparr>),
                 (Object3DComponent, \<lparr>cvalue = Some 2\<rparr>),
                 (MeshTagComponent, \<lparr>cvalue = None\<rparr>),
                 (SkinnedMeshTagComponent, \<lparr>cvalue = None\<rparr>)])\<rparr>"

text \<open>
  A stand-in for the constructor of \<^verbatim>\<open>Color\<close> in the examples: the new color records
  the value it was made from.
\<close>

definition exampleColor :: "jsval \<Rightarrow> string \<Rightarrow> jsval option" where
  "exampleColor v = map_of [(''isColor'', JBool True), (''from'', v)]"

text \<open>The property of an object in the state that a call returns, if it returns one.\<close>

definition propAfter :: "(error + state) option \<Rightarrow> addr \<Rightarrow> string \<Rightarrow> jsval option" where
  "propAfter r a p =
     (case r of Some (Inr s') \<Rightarrow> Some (getProp (heap s' a) p) | _ \<Rightarrow> None)"

text \<open>One call after another: the second call runs in the state the first returned.\<close>

definition thenRun ::
  "(error + state) option \<Rightarrow> (state \<Rightarrow> (error + state) option) \<Rightarrow> (error + state) option" where
  "thenRun r f = (case r of Some (Inr s) \<Rightarrow> f s | _ \<Rightarrow> r)"

text \<open>
  The example scene with the group 8 attached to entity 0 under the scene root, and its
  two children, the mesh 9 and the skinned mesh 2, attached to the entities 3 and 4.
\<close>

definition cascadeState :: state where
  "cascadeState =
     exampleState
       \<lparr>heap := exampleHeap
          (0 := (exampleHeap 0)\<lparr>children := [8]\<rparr>,
           8 := (exampleHeap 8)\<lparr>parent := Some 0, children := [9, 2], entity := Some 0\<rparr>,
           9 := (exampleHeap 9)\<lparr>entity := Some 3\<rparr>,
           2 := (exampleHeap 2)\<lparr>parent := Some 8, entity := Some 4\<rparr>),
        entities := (\<lambda>e. [])
          (0 := [(Object3DComponent, \<lparr>cvalue = Some 8\<rparr>),
                 (GroupTagComponent, \<lparr>cvalue = None\<rparr>)],
           3 := [(Object3DComponent, \<lparr>cvalue = Some 9\<rparr>),
                 (MeshTagComponent, \<lparr>cvalue = None\<rparr>)],
           4 := [(Object3DComponent, \<lparr>cvalue = Some 2\<rparr>),
                 (MeshTagComponent, \<lparr>cvalue = None\<rparr>),
                 (SkinnedMeshTagComponent, \<lparr>cvalue = None\<rparr>)])\<rparr>"

(*DEFS*)

section \<open>The tag dispatch and the table\<close>

lemma firstApplicable_Nil: "firstApplicable ob [] = []"
  by (simp add: firstApplicable_def)

lemma firstApplicable_Cons:
  "firstApplicable ob ((test, tag) # alts) = (if test ob then [tag] else firstApplicable ob alts)"
  by (simp add: firstApplicable_def)

lemma tableTags_tableChain_aux:
  "(case find (\<lambda>(test, tag, groups). test ob) rows of
        None \<Rightarrow> {}
      | Some (test, tag, groups) \<Rightarrow> set (tag # concat (map (firstApplicable ob) groups)))
   = set (tableChain rows ob)"
proof (induction rows)
  case Nil
  show ?case by simp
next
  case (Cons r rows)
  obtain test tag groups where r: "r = (test, tag, groups)" by (cases r)
  show ?case
  proof (cases "test ob")
    case True
    then show ?thesis by (simp add: r)
  next
    case False
    then show ?thesis using Cons by (simp add: r)
  qed
qed

lemma tableTags_tableChain: "tableTags ob = set (tableChain dispatchTable ob)"
  by (simp only: tableTags_def tableTags_tableChain_aux [of ob dispatchTable])

lemma tagChain_positionalAudio: "positionalAudio ob \<Longrightarrow> tagChain ob = [PositionalAudioTagComponent]"
  by (simp add: tagChain_def)

lemma set_getComponentTags: "set (getComponentTags ob) = set (tagChain ob)"
  by (auto simp: getComponentTags_def tagChain_positionalAudio)

lemma firstRowTag_rowTag_aux:
  "map_option (\<lambda>(test, tag, groups). tag) (find (\<lambda>(test, tag, groups). test ob) rows) = rowTag rows ob"
proof (induction rows)
  case Nil
  show ?case by simp
next
  case (Cons r rows)
  obtain test tag groups where r: "r = (test, tag, groups)" by (cases r)
  show ?case
  proof (cases "test ob")
    case True
    then show ?thesis by (simp add: r)
  next
    case False
    then show ?thesis using Cons by (simp add: r)
  qed
qed

lemma firstRowTag_rowTag: "firstRowTag ob = rowTag dispatchTable ob"
  by (simp only: firstRowTag_def firstRowTag_rowTag_aux [of ob dispatchTable])

lemma tagChain_tableChain: "tagChain ob = tableChain dispatchTable ob"
  unfolding tagChain_def dispatchTable_def
  by (simp add: firstApplicable_Nil firstApplicable_Cons cong del: if_weak_cong split del: if_split)

lemma getComponentTags_tableTags: "set (getComponentTags ob) = tableTags ob"
  by (simp add: set_getComponentTags tagChain_tableChain tableTags_tableChain)

lemma unmatched_no_tags:
  assumes "firstRowTag ob = None"
  shows "getComponentTags ob = []"
proof -
  from assms have "rowTag dispatchTable ob = None" by (simp add: firstRowTag_rowTag)
  then have "tableChain dispatchTable ob = []"
    unfolding dispatchTable_def by (simp split: if_splits)
  then have "tagChain ob = []" by (simp add: tagChain_tableChain)
  moreover from \<open>rowTag dispatchTable ob = None\<close> have "\<not> positionalAudio ob"
    unfolding dispatchTable_def by (simp split: if_splits)
  ultimately show ?thesis by (simp add: getComponentTags_def)
qed

lemma skinned_mesh_tags:
  assumes "firstRowTag ob = Some MeshTagComponent"
    and "\<not> marker ''isInstancedMesh'' ob" and "marker ''isSkinnedMesh'' ob"
  shows "getComponentTags ob = [MeshTagComponent, SkinnedMeshTagComponent]"
proof -
  from assms(1) have r: "rowTag dispatchTable ob = Some MeshTagComponent"
    by (simp add: firstRowTag_rowTag)
  then have "tableChain dispatchTable ob = [MeshTagComponent, SkinnedMeshTagComponent]"
    unfolding dispatchTable_def using assms(2,3)
    by (simp add: firstApplicable_Nil firstApplicable_Cons split: if_splits)
  then have "tagChain ob = [MeshTagComponent, SkinnedMeshTagComponent]"
    by (simp add: tagChain_tableChain)
  moreover from r have "\<not> positionalAudio ob"
    unfolding dispatchTable_def by (simp split: if_splits)
  ultimately show ?thesis by (simp add: getComponentTags_def)
qed

text \<open>
  C9. The specification takes the first positional-audio check of \<^verbatim>\<open>getComponentTags\<close> for
  dead code: the function would return what its variant without that check returns, and
  a node of type \<^verbatim>\<open>Audio\<close> with a panner would get the positional-audio tag once. The
  first check is a statement of its own, not a branch of the chain, so both push: the
  function returns the tag twice, its variant once.
\<close>

theorem getComponentTags_positional_audio_twice:
  "getComponentTags positionalAudioNode
     = [PositionalAudioTagComponent, PositionalAudioTagComponent]
   \<and> getComponentTags_without_first_check positionalAudioNode
     = [PositionalAudioTagComponent]"
  by (simp add: getComponentTags_def getComponentTags_without_first_check_def tagChain_def
      positionalAudio_def typeIs_def getProp_def positionalAudioNode_def plainObject_def)

section \<open>Entities\<close>

lemma componentTypes_removeFirst: "map fst (removeFirst C xs) = remove1 C (map fst xs)"
  by (induction xs) auto

lemma map_of_removeFirst_other: "D \<noteq> C \<Longrightarrow> map_of (removeFirst C xs) D = map_of xs D"
  by (induction xs) auto

lemma map_of_removeFirst_same:
  "distinct (map fst xs) \<Longrightarrow> map_of (removeFirst C xs) C = None"
proof (induction xs)
  case Nil
  show ?case by simp
next
  case (Cons x xs)
  then show ?case by (cases "fst x = C") (auto simp: map_of_eq_None_iff)
qed

lemma componentTypes_entities_update:
  "componentTypes (s\<lparr>entities := f\<rparr>) e = map fst (f e)"
  by (simp add: componentTypes_def)

lemma componentTypes_initialState: "componentTypes initialState e = []"
  by (simp add: componentTypes_def initialState_def)

lemma componentTypes_addComponent:
  "componentTypes (addComponent e C v s) e' =
     (if e' = e \<and> C \<notin> set (componentTypes s e) then componentTypes s e @ [C]
      else componentTypes s e')"
  by (simp add: addComponent_def componentTypes_def hasComponent_def)

lemma componentTypes_removeComponent:
  "componentTypes (removeComponent e C fi s) e' =
     (if e' = e then remove1 C (componentTypes s e) else componentTypes s e')"
  by (simp add: removeComponent_def componentTypes_def componentTypes_removeFirst)

lemma hasComponent_removeComponent_other:
  "D \<noteq> C \<Longrightarrow> hasComponent (removeComponent e C fi s) e' D = hasComponent s e' D"
  by (simp add: hasComponent_def componentTypes_removeComponent)

section \<open>Game objects\<close>

lemma GameObject_removeComponent_keeps:
  "hasComponent s g TransformComponent \<Longrightarrow>
   hasComponent (snd (GameObject_removeComponent this C fi s)) g TransformComponent"
  by (simp add: GameObject_removeComponent_def removeComponentFromEntity_def
      hasComponent_removeComponent_other)

lemma removeComponentCalls_keeps:
  "hasComponent s g TransformComponent \<Longrightarrow>
   hasComponent (removeComponentCalls calls s) g TransformComponent"
proof (induction calls arbitrary: s)
  case Nil
  then show ?case by (simp add: removeComponentCalls_def)
next
  case (Cons c calls)
  obtain this C fi where c: "c = (this, C, fi)" by (cases c)
  have "hasComponent (snd (GameObject_removeComponent this C fi s)) g TransformComponent"
    using Cons.prems by (rule GameObject_removeComponent_keeps)
  then have "hasComponent (removeComponentCalls calls (snd (GameObject_removeComponent this C fi s)))
               g TransformComponent"
    by (rule Cons.IH)
  then show ?case by (simp add: removeComponentCalls_def c)
qed

text \<open>
  C10. A \<^verbatim>\<open>GameObject\<close> has a \<^verbatim>\<open>TransformComponent\<close> once constructed.
  \<^verbatim>\<open>GameObject.removeComponent\<close> with \<^verbatim>\<open>TransformComponent\<close> changes nothing and returns
  the object; with any other class it returns the object and takes that component off
  the object (off its list of types, and, the types being distinct, the object then has
  no component of the class). So after any sequence of \<^verbatim>\<open>removeComponent\<close> calls, on this
  or on other game objects, an object that had its transform still has it.
\<close>

theorem GameObject_TransformComponent_invariant:
  "hasComponent (GameObject_constructor g s) g TransformComponent
   \<and> GameObject_removeComponent g TransformComponent fi s = (g, s)
   \<and> (C \<noteq> TransformComponent \<longrightarrow>
        fst (GameObject_removeComponent g C fi s) = g
      \<and> componentTypes (snd (GameObject_removeComponent g C fi s)) g
          = remove1 C (componentTypes s g)
      \<and> (distinct (componentTypes s g) \<longrightarrow>
            \<not> hasComponent (snd (GameObject_removeComponent g C fi s)) g C
          \<and> getComponent (snd (GameObject_removeComponent g C fi s)) g C False = None))
   \<and> (hasComponent s g TransformComponent \<longrightarrow>
        hasComponent (removeComponentCalls calls s) g TransformComponent)"
proof (intro conjI impI)
  show "hasComponent (GameObject_constructor g s) g TransformComponent"
    by (simp add: GameObject_constructor_def addComponentToEntity_def hasComponent_def
        componentTypes_addComponent componentTypes_entities_update)
  show "GameObject_removeComponent g TransformComponent fi s = (g, s)"
    by (simp add: GameObject_removeComponent_def)
  show "fst (GameObject_removeComponent g C fi s) = g"
    by (simp add: GameObject_removeComponent_def)
  show "componentTypes (snd (GameObject_removeComponent g C fi s)) g
          = remove1 C (componentTypes s g)" if "C \<noteq> TransformComponent"
    using that by (simp add: GameObject_removeComponent_def removeComponentFromEntity_def
        componentTypes_removeComponent)
  show "\<not> hasComponent (snd (GameObject_removeComponent g C fi s)) g C"
    if "C \<noteq> TransformComponent" "distinct (componentTypes s g)"
    using that by (simp add: GameObject_removeComponent_def removeComponentFromEntity_def
        hasComponent_def componentTypes_removeComponent)
  show "getComponent (snd (GameObject_removeComponent g C fi s)) g C False = None"
    if "C \<noteq> TransformComponent" "distinct (componentTypes s g)"
    using that by (simp add: GameObject_removeComponent_def removeComponentFromEntity_def
        getComponent_def removeComponent_def componentTypes_def map_of_removeFirst_same)
  show "hasComponent (removeComponentCalls calls s) g TransformComponent"
    if "hasComponent s g TransformComponent"
    using that by (rule removeComponentCalls_keeps)
qed

theorem GameObject_TransformComponent_invariant_witness:
  "hasComponent (GameObject_constructor 3 initialState) 3 TransformComponent
   \<and> componentTypes (snd (GameObject_removeComponent 3 MeshTagComponent None
        (addComponent 3 MeshTagComponent None (GameObject_constructor 3 initialState)))) 3
       = [TransformComponent]
   \<and> \<not> hasComponent (snd (GameObject_removeComponent 3 MeshTagComponent None
        (addComponent 3 MeshTagComponent None (GameObject_constructor 3 initialState)))) 3
          MeshTagComponent
   \<and> hasComponent
        (removeComponentCalls
           [(3, MeshTagComponent, None), (3, TransformComponent, Some True),
            (3, TransformComponent, None)]
           (addComponent 3 MeshTagComponent None (GameObject_constructor 3 initialState)))
        3 TransformComponent"
proof -
  let ?s = "addComponent 3 MeshTagComponent None (GameObject_constructor 3 initialState)"
  have types: "componentTypes ?s 3 = [TransformComponent, MeshTagComponent]"
    by (simp add: GameObject_constructor_def addComponentToEntity_def
        componentTypes_addComponent componentTypes_entities_update)
  have h1: "MeshTagComponent \<noteq> TransformComponent" by simp
  have h2: "distinct (componentTypes ?s 3)" by (simp add: types)
  have h3: "hasComponent ?s 3 TransformComponent" by (simp add: hasComponent_def types)
  from GameObject_TransformComponent_invariant
         [where g = 3 and s = initialState and fi = None and C = MeshTagComponent
            and calls = "[]"]
  have "hasComponent (GameObject_constructor 3 initialState) 3 TransformComponent" by simp
  moreover
  from GameObject_TransformComponent_invariant
         [where g = 3 and s = ?s and fi = None and C = MeshTagComponent
            and calls = "[(3, MeshTagComponent, None), (3, TransformComponent, Some True),
               (3, TransformComponent, None)]"] h1 h2 h3
  have "componentTypes (snd (GameObject_removeComponent 3 MeshTagComponent None ?s)) 3
          = remove1 MeshTagComponent (componentTypes ?s 3)
        \<and> \<not> hasComponent (snd (GameObject_removeComponent 3 MeshTagComponent None ?s)) 3
            MeshTagComponent
        \<and> hasComponent
        (removeComponentCalls
           [(3, MeshTagComponent, None), (3, TransformComponent, Some True),
            (3, TransformComponent, None)] ?s) 3 TransformComponent"
    by blast
  ultimately show ?thesis by (simp add: types)
qed

section \<open>What the operations leave alone\<close>

lemmas store_defs =
  updateObj_def writeProp_def setParent_def setChildren_def setEntity_def allocObj_def

lemma entities_cong:
  assumes "entities s' = entities s"
  shows "componentTypes s' = componentTypes s" and "hasComponent s' = hasComponent s"
    and "getComponent s' = getComponent s" and "getObject3D s' = getObject3D s"
  using assms
  by (auto simp: componentTypes_def hasComponent_def getComponent_def getObject3D_def fun_eq_iff)

lemma object3D_remove_frame:
  "entities (object3D_remove this ob s) = entities s"
  "removals (object3D_remove this ob s) = removals s"
  "nxt (object3D_remove this ob s) = nxt s"
  "scene (object3D_remove this ob s) = scene s"
  "csm (object3D_remove this ob s) = csm s"
  "warnings (object3D_remove this ob s) = warnings s"
  "props (heap (object3D_remove this ob s) b) = props (heap s b)"
  "entity (heap (object3D_remove this ob s) b) = entity (heap s b)"
  "instanceofColor (heap (object3D_remove this ob s) b) = instanceofColor (heap s b)"
  by (simp_all add: object3D_remove_def store_defs Let_def)

lemma object3D_add_frame:
  "entities (object3D_add this ob s) = entities s"
  "removals (object3D_add this ob s) = removals s"
  "nxt (object3D_add this ob s) = nxt s"
  "scene (object3D_add this ob s) = scene s"
  "csm (object3D_add this ob s) = csm s"
  "warnings (object3D_add this ob s) = warnings s"
  "props (heap (object3D_add this ob s) b) = props (heap s b)"
  "entity (heap (object3D_add this ob s) b) = entity (heap s b)"
  "instanceofColor (heap (object3D_add this ob s) b) = instanceofColor (heap s b)"
  by (simp_all add: object3D_add_def object3D_remove_frame store_defs Let_def split: option.split)

lemma setEntity_frame:
  "entities (setEntity a x s) = entities s"
  "removals (setEntity a x s) = removals s"
  "nxt (setEntity a x s) = nxt s"
  "scene (setEntity a x s) = scene s"
  "csm (setEntity a x s) = csm s"
  "warnings (setEntity a x s) = warnings s"
  "props (heap (setEntity a x s) b) = props (heap s b)"
  "children (heap (setEntity a x s) b) = children (heap s b)"
  "parent (heap (setEntity a x s) b) = parent (heap s b)"
  "instanceofColor (heap (setEntity a x s) b) = instanceofColor (heap s b)"
  "entity (heap (setEntity a x s) b) = (if b = a then x else entity (heap s b))"
  by (simp_all add: store_defs)

lemma addComponent_frame:
  "heap (addComponent e C v s) = heap s"
  "removals (addComponent e C v s) = removals s"
  "nxt (addComponent e C v s) = nxt s"
  "scene (addComponent e C v s) = scene s"
  "csm (addComponent e C v s) = csm s"
  "warnings (addComponent e C v s) = warnings s"
  by (simp_all add: addComponent_def)

lemma removeComponent_frame:
  "heap (removeComponent e C fi s) = heap s"
  "removals (removeComponent e C fi s) = removals s"
  "nxt (removeComponent e C fi s) = nxt s"
  "scene (removeComponent e C fi s) = scene s"
  "csm (removeComponent e C fi s) = csm s"
  "warnings (removeComponent e C fi s) = warnings s"
  by (simp_all add: removeComponent_def)

lemma removeEntity_frame:
  "heap (removeEntity e fi s) = heap s"
  "entities (removeEntity e fi s) = entities s"
  "nxt (removeEntity e fi s) = nxt s"
  "scene (removeEntity e fi s) = scene s"
  "csm (removeEntity e fi s) = csm s"
  "warnings (removeEntity e fi s) = warnings s"
  "removals (removeEntity e fi s) = removals s @ [(e, fi)]"
  by (simp_all add: removeEntity_def)

section \<open>The loop of \<open>removeObject3DComponent\<close>\<close>

lemma removeFirst_nth:
  "distinct (map fst xs) \<Longrightarrow> i < length xs \<Longrightarrow>
   removeFirst (fst (xs ! i)) xs = take i xs @ drop (Suc i) xs"
proof (induction xs arbitrary: i)
  case Nil
  then show ?case by simp
next
  case (Cons x xs)
  show ?case
  proof (cases i)
    case 0
    then show ?thesis by simp
  next
    case (Suc j)
    with Cons.prems have j: "j < length xs" and d: "distinct (map fst xs)"
      and nx: "fst x \<notin> fst ` set xs" by auto
    from j have "xs ! j \<in> set xs" by simp
    then have "fst (xs ! j) \<in> fst ` set xs" by (rule imageI)
    with nx have "fst (xs ! j) \<noteq> fst x" by metis
    then show ?thesis using Cons.IH[OF d j] Suc by simp
  qed
qed

lemma distinct_removeFirst:
  "distinct (map fst xs) \<Longrightarrow> distinct (map fst (removeFirst C xs))"
  by (simp add: componentTypes_removeFirst)

lemma removeTagComponents_result:
  "distinct (map fst (entities s e)) \<Longrightarrow> n \<le> length (entities s e) \<Longrightarrow>
   removeTagComponents isTag e n s
     = Inr (s\<lparr>entities := (entities s)
              (e := filter (\<lambda>x. \<not> isTag (fst x)) (take n (entities s e))
                    @ drop n (entities s e))\<rparr>)"
proof (induction n arbitrary: s)
  case 0
  show ?case by simp
next
  case (Suc i)
  let ?L = "entities s e"
  from Suc.prems have i: "i < length ?L" and d: "distinct (map fst ?L)" by simp_all
  have nth: "componentTypes s e ! i = fst (?L ! i)"
    using i by (simp add: componentTypes_def)
  have len: "i < length (componentTypes s e)" using i by (simp add: componentTypes_def)
  show ?case
  proof (cases "isTag (fst (?L ! i))")
    case True
    let ?s1 = "removeComponent e (fst (?L ! i)) None s"
    have L1: "entities ?s1 e = take i ?L @ drop (Suc i) ?L"
      using removeFirst_nth[OF d i] by (simp add: removeComponent_def)
    have d1: "distinct (map fst (entities ?s1 e))"
      using d by (simp add: removeComponent_def distinct_removeFirst)
    have n1: "i \<le> length (entities ?s1 e)" using i by (simp add: L1)
    have tk: "take i (take i ?L @ drop (Suc i) ?L) = take i ?L" using i by simp
    have dr: "drop i (take i ?L @ drop (Suc i) ?L) = drop (Suc i) ?L" using i by simp
    have flt: "filter (\<lambda>x. \<not> isTag (fst x)) (take (Suc i) ?L)
                 = filter (\<lambda>x. \<not> isTag (fst x)) (take i ?L)"
      using i True by (simp add: take_Suc_conv_app_nth)
    have "removeTagComponents isTag e (Suc i) s = removeTagComponents isTag e i ?s1"
      using len nth True by simp
    also have "\<dots> = Inr (?s1\<lparr>entities := (entities ?s1)
              (e := filter (\<lambda>x. \<not> isTag (fst x)) (take i (entities ?s1 e))
                    @ drop i (entities ?s1 e))\<rparr>)"
      using Suc.IH[OF d1 n1] .
    also have "\<dots> = Inr (s\<lparr>entities := (entities s)
              (e := filter (\<lambda>x. \<not> isTag (fst x)) (take (Suc i) ?L) @ drop (Suc i) ?L)\<rparr>)"
      unfolding L1 tk dr flt by (simp add: removeComponent_def)
    finally show ?thesis .
  next
    case False
    have n1: "i \<le> length ?L" using i by simp
    have flt: "filter (\<lambda>x. \<not> isTag (fst x)) (take (Suc i) ?L) @ drop (Suc i) ?L
                 = filter (\<lambda>x. \<not> isTag (fst x)) (take i ?L) @ drop i ?L"
      using i False by (simp add: take_Suc_conv_app_nth Cons_nth_drop_Suc)
    have "removeTagComponents isTag e (Suc i) s = removeTagComponents isTag e i s"
      using len nth False by simp
    also have "\<dots> = Inr (s\<lparr>entities := (entities s)
              (e := filter (\<lambda>x. \<not> isTag (fst x)) (take i ?L) @ drop i ?L)\<rparr>)"
      using Suc.IH[OF d n1] .
    finally show ?thesis by (simp only: flt)
  qed
qed

section \<open>Node detachment\<close>

lemma removeObject3DComponent_unfold:
  assumes c: "getComponent s e Object3DComponent True = Some c"
    and v: "cvalue c = Some object3d"
    and d: "distinct (componentTypes s e)"
  shows "\<exists>s2. removeObject3DComponent isTag e unparent s
           = Inr (setEntity object3d None
                   (s2\<lparr>entities := (entities s)
                      (e := filter (\<lambda>x. \<not> isTag (fst x))
                              (removeFirst Object3DComponent (entities s e)))\<rparr>))
         \<and> entities s2 = entities s \<and> removals s2 = removals s"
proof -
  let ?s1 = "object3D_remove (scene s) object3d s"
  let ?s2 = "if unparent then
               (case parent (heap ?s1 object3d) of
                  Some p \<Rightarrow> object3D_remove p object3d ?s1
                | None \<Rightarrow> ?s1)
             else ?s1"
  let ?s3 = "removeComponent e Object3DComponent None ?s2"
  let ?L = "removeFirst Object3DComponent (entities s e)"
  have e2: "entities ?s2 = entities s"
    by (simp add: object3D_remove_frame split: option.split)
  have r2: "removals ?s2 = removals s"
    by (simp add: object3D_remove_frame split: option.split)
  have e3: "entities ?s3 e = ?L"
    by (simp add: removeComponent_def e2)
  have d3: "distinct (map fst (entities ?s3 e))"
    unfolding e3 using d by (simp add: distinct_removeFirst componentTypes_def)
  have n3: "length (componentTypes ?s3 e) \<le> length (entities ?s3 e)"
    by (simp add: componentTypes_def)
  have loop: "removeTagComponents isTag e (length (componentTypes ?s3 e)) ?s3
     = Inr (?s3\<lparr>entities := (entities ?s3)
              (e := filter (\<lambda>x. \<not> isTag (fst x)) (entities ?s3 e))\<rparr>)"
    using removeTagComponents_result[OF d3 n3, of isTag] by (simp add: componentTypes_def)
  have s3: "?s3\<lparr>entities := (entities ?s3)
              (e := filter (\<lambda>x. \<not> isTag (fst x)) (entities ?s3 e))\<rparr>
           = ?s2\<lparr>entities := (entities s)(e := filter (\<lambda>x. \<not> isTag (fst x)) ?L)\<rparr>"
    by (simp add: removeComponent_def e2)
  have "removeObject3DComponent isTag e unparent s
          = Inr (setEntity object3d None
                  (?s2\<lparr>entities := (entities s)(e := filter (\<lambda>x. \<not> isTag (fst x)) ?L)\<rparr>))"
    unfolding removeObject3DComponent_def using c v
    by (simp only: option.case Let_def loop s3 sum.case)
  with e2 r2 show ?thesis by blast
qed

lemma filter_removeFirst_types:
  "distinct (map fst xs) \<Longrightarrow>
   map fst (filter (\<lambda>x. \<not> isTag (fst x)) (removeFirst C xs))
     = filter (\<lambda>D. D \<noteq> C \<and> \<not> isTag D) (map fst xs)"
proof (induction xs)
  case Nil
  show ?case by simp
next
  case (Cons x xs)
  show ?case
  proof (cases "fst x = C")
    case True
    with Cons.prems have "C \<notin> fst ` set xs" by auto
    then have "filter (\<lambda>D. D \<noteq> C \<and> \<not> isTag D) (map fst xs)
                 = filter (\<lambda>D. \<not> isTag D) (map fst xs)"
      by (intro filter_cong) auto
    then show ?thesis using True by (simp add: filter_map comp_def)
  next
    case False
    then show ?thesis using Cons by simp
  qed
qed

section \<open>Traversals\<close>

lemma descendant_step:
  "descendant h r a \<Longrightarrow> c \<in> set (children (h a)) \<Longrightarrow> descendant h r c"
proof (induction rule: descendant.induct)
  case (self a)
  then show ?case by (blast intro: descendant.intros)
next
  case (child c' a b)
  then show ?case by (blast intro: descendant.intros)
qed

lemma descendant_cases:
  "descendant h a b \<Longrightarrow> b = a \<or> (\<exists>c \<in> set (children (h a)). descendant h c b)"
  by (erule descendant.cases) auto

lemma forEachOpt_rule:
  assumes "\<And>c s. c \<in> set cs \<Longrightarrow> I s \<Longrightarrow> \<exists>s'. f c s = Some s' \<and> I s'"
    and "I s"
  shows "\<exists>s'. forEachOpt f cs s = Some s' \<and> I s'"
  using assms
proof (induction cs arbitrary: s)
  case Nil
  then show ?case by simp
next
  case (Cons c cs)
  from Cons.prems(1)[of c s] Cons.prems(2)
  obtain s1 where s1: "f c s = Some s1" "I s1" by auto
  have "\<exists>s'. forEachOpt f cs s1 = Some s' \<and> I s'"
  proof (rule Cons.IH)
    show "\<exists>s'. f c' t = Some s' \<and> I s'" if "c' \<in> set cs" "I t" for c' t
      using Cons.prems(1)[of c' t] that by simp
    show "I s1" by (rule s1)
  qed
  with s1 show ?case by simp
qed

lemma traverse_returns:
  assumes ch: "\<And>s x. I s \<Longrightarrow> children (heap s x) = children (h0 x)"
    and step: "\<And>b s. I s \<Longrightarrow> descendant h0 r b \<Longrightarrow> I (callback b s)"
  shows "subtreeWithin h0 n k a \<Longrightarrow> descendant h0 r a \<Longrightarrow> I s \<Longrightarrow>
         \<exists>s'. traverse k callback a s = Some s' \<and> I s'"
proof (induction k arbitrary: a s)
  case 0
  then show ?case by simp
next
  case (Suc k)
  let ?s1 = "callback a s"
  have I1: "I ?s1" using Suc.prems(3,2) by (rule step)
  have cs: "children (heap ?s1 a) = children (h0 a)" using I1 by (rule ch)
  from Suc.prems(1) have sub: "\<And>c. c \<in> set (children (h0 a)) \<Longrightarrow> subtreeWithin h0 n k c"
    by (simp add: list_all_iff)
  have "\<exists>s'. forEachOpt (traverse k callback) (children (h0 a)) ?s1 = Some s' \<and> I s'"
  proof (rule forEachOpt_rule)
    show "\<exists>s'. traverse k callback c t = Some s' \<and> I s'"
      if "c \<in> set (children (h0 a))" "I t" for c t
    proof -
      have "descendant h0 r c" using Suc.prems(2) that(1) by (rule descendant_step)
      with sub[OF that(1)] show ?thesis using that(2) by (rule Suc.IH)
    qed
    show "I ?s1" by (rule I1)
  qed
  then show ?case by (simp add: cs Let_def)
qed

lemma forEachOpt_visits:
  assumes each: "\<And>c s s'. c \<in> set cs \<Longrightarrow> I s \<Longrightarrow> f c s = Some s' \<Longrightarrow>
                   I s' \<and> (\<forall>b. Q b s \<longrightarrow> Q b s') \<and> (\<forall>b. R c b \<longrightarrow> Q b s')"
  shows "I s \<Longrightarrow> forEachOpt f cs s = Some s' \<Longrightarrow>
         I s' \<and> (\<forall>b. Q b s \<longrightarrow> Q b s') \<and> (\<forall>c \<in> set cs. \<forall>b. R c b \<longrightarrow> Q b s')"
  using each
proof (induction cs arbitrary: s)
  case Nil
  then show ?case by simp
next
  case (Cons c cs)
  from Cons.prems(2) obtain s1 where s1: "f c s = Some s1"
    and rest: "forEachOpt f cs s1 = Some s'"
    by (auto split: option.splits)
  have first: "I s1 \<and> (\<forall>b. Q b s \<longrightarrow> Q b s1) \<and> (\<forall>b. R c b \<longrightarrow> Q b s1)"
    using Cons.prems(3)[of c s s1] Cons.prems(1) s1 by simp
  have tail: "I s' \<and> (\<forall>b. Q b s1 \<longrightarrow> Q b s') \<and> (\<forall>c' \<in> set cs. \<forall>b. R c' b \<longrightarrow> Q b s')"
  proof (rule Cons.IH)
    show "I s1" using first by simp
    show "forEachOpt f cs s1 = Some s'" by (rule rest)
    show "I t' \<and> (\<forall>b. Q b t \<longrightarrow> Q b t') \<and> (\<forall>b. R c' b \<longrightarrow> Q b t')"
      if "c' \<in> set cs" "I t" "f c' t = Some t'" for c' t t'
      using Cons.prems(3)[of c' t t'] that by simp
  qed
  from first tail show ?case by auto
qed

lemma traverse_visits:
  assumes ch: "\<And>s x. I s \<Longrightarrow> children (heap s x) = children (h0 x)"
    and step: "\<And>b s. I s \<Longrightarrow> descendant h0 r b \<Longrightarrow> I (callback b s)"
    and est: "\<And>b s. I s \<Longrightarrow> descendant h0 r b \<Longrightarrow> Q b (callback b s)"
    and stab: "\<And>b c s. I s \<Longrightarrow> descendant h0 r c \<Longrightarrow> Q b s \<Longrightarrow> Q b (callback c s)"
  shows "I s \<Longrightarrow> descendant h0 r a \<Longrightarrow> traverse k callback a s = Some s' \<Longrightarrow>
         I s' \<and> (\<forall>b. Q b s \<longrightarrow> Q b s') \<and> (\<forall>b. descendant h0 a b \<longrightarrow> Q b s')"
proof (induction k arbitrary: a s s')
  case 0
  then show ?case by simp
next
  case (Suc k)
  let ?s1 = "callback a s"
  have I1: "I ?s1" using Suc.prems(1,2) by (rule step)
  have Qa: "Q a ?s1" using Suc.prems(1,2) by (rule est)
  have keep: "\<And>b. Q b s \<Longrightarrow> Q b ?s1" using Suc.prems(1,2) by (rule stab)
  have cs: "children (heap ?s1 a) = children (h0 a)" using I1 by (rule ch)
  from Suc.prems(3) have run: "forEachOpt (traverse k callback) (children (h0 a)) ?s1 = Some s'"
    by (simp add: cs Let_def)
  have kids: "I s' \<and> (\<forall>b. Q b ?s1 \<longrightarrow> Q b s')
      \<and> (\<forall>c \<in> set (children (h0 a)). \<forall>b. descendant h0 c b \<longrightarrow> Q b s')"
  proof (rule forEachOpt_visits[where f = "traverse k callback" and I = I and Q = Q
        and R = "descendant h0", OF _ I1 run])
    fix c t t'
    assume c: "c \<in> set (children (h0 a))" and t: "I t" and tt: "traverse k callback c t = Some t'"
    have "descendant h0 r c" using Suc.prems(2) c by (rule descendant_step)
    with t show "I t' \<and> (\<forall>b. Q b t \<longrightarrow> Q b t') \<and> (\<forall>b. descendant h0 c b \<longrightarrow> Q b t')"
      using tt by (rule Suc.IH)
  qed
  have "Q b s'" if "descendant h0 a b" for b
  proof -
    from descendant_cases[OF that] show ?thesis
    proof
      assume "b = a"
      with Qa kids show ?thesis by simp
    next
      assume "\<exists>c \<in> set (children (h0 a)). descendant h0 c b"
      with kids show ?thesis by blast
    qed
  qed
  moreover have "Q b s'" if "Q b s" for b using keep[OF that] kids by simp
  ultimately show ?case using kids by blast
qed

section \<open>Property paths\<close>

lemma lineTerminator_dot: "\<not> lineTerminator CHR ''.''"
  by (simp add: lineTerminator_def)

lemma dottedPath_Cons:
  "rest \<noteq> [] \<Longrightarrow> dottedPath (seg # rest) = seg @ CHR ''.'' # dottedPath rest"
  by (cases rest) simp_all

lemma validSegment_chars:
  "validSegment seg \<Longrightarrow> c \<in> set seg \<Longrightarrow> c \<noteq> CHR ''.'' \<and> \<not> lineTerminator c"
  by (simp add: validSegment_def list_all_iff)

lemma validSegment_nonempty: "validSegment seg \<Longrightarrow> seg \<noteq> []"
  by (simp add: validSegment_def)

lemma dottedPath_chars:
  "list_all validSegment segs \<Longrightarrow> c \<in> set (dottedPath segs) \<Longrightarrow> \<not> lineTerminator c"
proof (induction segs)
  case Nil
  then show ?case by simp
next
  case (Cons seg rest)
  from Cons.prems(1) have v: "validSegment seg" and vr: "list_all validSegment rest" by simp_all
  show ?case
  proof (cases "rest = []")
    case True
    with Cons.prems(2) have "c \<in> set seg" by simp
    with v show ?thesis by (simp add: validSegment_chars)
  next
    case False
    with Cons.prems(2) have "c \<in> set seg \<or> c = CHR ''.'' \<or> c \<in> set (dottedPath rest)"
      by (auto simp: dottedPath_Cons)
    then show ?thesis
      using v Cons.IH[OF vr] by (auto simp: validSegment_chars lineTerminator_dot)
  qed
qed

lemma dottedPath_nonempty: "list_all validSegment segs \<Longrightarrow> segs \<noteq> [] \<Longrightarrow> dottedPath segs \<noteq> []"
proof (cases segs)
  case Nil
  assume "segs \<noteq> []"
  with Nil show ?thesis by simp
next
  case (Cons seg rest)
  assume "list_all validSegment segs"
  with Cons have "seg \<noteq> []" by (simp add: validSegment_nonempty)
  then show ?thesis using Cons by (cases rest) simp_all
qed

lemma pathGroups_single:
  assumes "validSegment seg"
  shows "pathGroups seg = Some (seg, None)"
proof -
  have all: "\<forall>x \<in> set seg. x \<noteq> CHR ''.''"
    using assms by (simp add: validSegment_chars)
  from validSegment_nonempty[OF assms] obtain c cs where seg: "seg = c # cs" by (cases seg) auto
  with all have c: "c \<noteq> CHR ''.''" by simp
  have d: "dropWhile (\<lambda>c. c = CHR ''.'') seg = seg" using seg c by simp
  have t: "takeWhile (\<lambda>c. c \<noteq> CHR ''.'') seg = seg" using all by (simp add: takeWhile_eq_all_conv)
  have r: "dropWhile (\<lambda>c. c \<noteq> CHR ''.'') seg = []" using all by simp
  have ne: "seg \<noteq> []" using seg by simp
  show ?thesis unfolding pathGroups_def Let_def d t r using ne by simp
qed

lemma pathGroups_more:
  assumes "validSegment seg" and "list_all validSegment rest" and "rest \<noteq> []"
  shows "pathGroups (dottedPath (seg # rest)) = Some (seg, Some (dottedPath rest))"
proof -
  let ?path = "seg @ CHR ''.'' # dottedPath rest"
  have all: "\<forall>x \<in> set seg. x \<noteq> CHR ''.''"
    using assms(1) by (simp add: validSegment_chars)
  from validSegment_nonempty[OF assms(1)] obtain c cs where seg: "seg = c # cs"
    by (cases seg) auto
  with all have c: "c \<noteq> CHR ''.''" by simp
  have d: "dropWhile (\<lambda>c. c = CHR ''.'') ?path = ?path" using seg c by simp
  have t: "takeWhile (\<lambda>c. c \<noteq> CHR ''.'') ?path = seg"
    using all by (simp add: takeWhile_append2)
  have r: "dropWhile (\<lambda>c. c \<noteq> CHR ''.'') ?path = CHR ''.'' # dottedPath rest"
    using all by (simp add: dropWhile_append2)
  have n: "takeWhile (\<lambda>c. \<not> lineTerminator c) (dottedPath rest) = dottedPath rest"
    using dottedPath_chars[OF assms(2)] by (simp add: takeWhile_eq_all_conv)
  have ne: "?path \<noteq> []" using seg by simp
  have "pathGroups ?path = Some (seg, Some (dottedPath rest))"
    unfolding pathGroups_def Let_def d t r using ne n by simp
  then show ?thesis by (simp add: dottedPath_Cons[OF assms(3)])
qed


section \<open>\<open>applyDeepValue\<close> along a dotted path\<close>

lemma applyDeepValue_falsy:
  "\<not> truthy subj \<Longrightarrow>
   applyDeepValue newColor subj path v s = Inr (s\<lparr>warnings := Suc (warnings s)\<rparr>)"
  by (subst applyDeepValue.simps) simp

lemma pathGroups_dottedPath:
  assumes "list_all validSegment (p # rest)"
  shows "pathGroups (dottedPath (p # rest))
           = Some (p, if rest = [] then None else Some (dottedPath rest))"
proof (cases "rest = []")
  case True
  with assms show ?thesis by (simp add: pathGroups_single)
next
  case False
  with assms show ?thesis by (simp add: pathGroups_more)
qed

lemma applyDeepValue_unheld:
  assumes "truthy subj" and "list_all validSegment (p # rest)" and "member s subj p = None"
  shows "applyDeepValue newColor subj (dottedPath (p # rest)) v s = Inl Unmodelled"
proof -
  from assms(2) have pe: "p \<noteq> []" by (simp add: validSegment_nonempty)
  show ?thesis
    using assms(1,3) pe pathGroups_dottedPath[OF assms(2)]
    by (subst applyDeepValue.simps) simp
qed

lemma applyDeepValue_undefined:
  assumes "truthy subj" and "list_all validSegment (p # rest)"
    and "member s subj p = Some JUndefined"
  shows "applyDeepValue newColor subj (dottedPath (p # rest)) v s = Inr s"
proof -
  from assms(2) have pe: "p \<noteq> []" by (simp add: validSegment_nonempty)
  show ?thesis
    using assms(1,3) pe pathGroups_dottedPath[OF assms(2)]
    by (subst applyDeepValue.simps) simp
qed

lemma applyDeepValue_last:
  assumes "truthy subj" and "validSegment p" and "member s subj p = Some x"
    and "x \<noteq> JUndefined"
  shows "applyDeepValue newColor subj (dottedPath [p]) v s = assignValue newColor subj p v s"
  using assms
  by (subst applyDeepValue.simps) (simp add: pathGroups_single validSegment_nonempty)

lemma applyDeepValue_descend:
  assumes "truthy subj" and "list_all validSegment (p # rest)" and "rest \<noteq> []"
    and "member s subj p = Some x" and "x \<noteq> JUndefined"
  shows "applyDeepValue newColor subj (dottedPath (p # rest)) v s
           = applyDeepValue newColor x (dottedPath rest) v s"
proof -
  from assms have g: "pathGroups (dottedPath (p # rest)) = Some (p, Some (dottedPath rest))"
    by (simp add: pathGroups_more)
  from assms have ne: "dottedPath rest \<noteq> []" by (simp add: dottedPath_nonempty)
  from assms have pe: "p \<noteq> []" by (simp add: validSegment_nonempty)
  show ?thesis
    using assms(1,4,5) g ne pe by (subst applyDeepValue.simps) simp
qed

lemma member_primitive:
  "member s x p = Some y \<Longrightarrow> (\<exists>a. x = JObj a) \<or> (\<exists>n. y = JNum n)"
  by (cases x) (auto simp: member_def split: if_splits)

lemma valueAt_JNum: "valueAt s (JNum n) ps = Some (JObj t) \<Longrightarrow> False"
  by (cases ps) (simp_all add: member_def)

lemma valueAt_source:
  assumes "valueAt s x ps = Some (JObj t)"
  shows "\<exists>a. x = JObj a"
proof (cases ps)
  case Nil
  with assms show ?thesis by simp
next
  case (Cons p rest)
  with assms obtain y where m: "member s x p = Some y" and w: "valueAt s y rest = Some (JObj t)"
    by (cases "member s x p") simp_all
  from member_primitive[OF m] show ?thesis
  proof
    assume "\<exists>a. x = JObj a"
    then show ?thesis .
  next
    assume "\<exists>n. y = JNum n"
    then obtain n where "y = JNum n" ..
    with w have "valueAt s (JNum n) rest = Some (JObj t)" by simp
    then have False by (rule valueAt_JNum)
    then show ?thesis ..
  qed
qed

lemma applyDeepValue_walk:
  assumes "valueAt s (JObj a) pre = Some (JObj t)" and "list_all validSegment (pre @ rest)"
    and "rest \<noteq> []"
  shows "applyDeepValue newColor (JObj a) (dottedPath (pre @ rest)) v s
           = applyDeepValue newColor (JObj t) (dottedPath rest) v s"
  using assms
proof (induction pre arbitrary: a)
  case Nil
  then show ?case by simp
next
  case (Cons p pre)
  from Cons.prems(1) obtain y where m: "member s (JObj a) p = Some y"
    and w: "valueAt s y pre = Some (JObj t)"
    by (cases "member s (JObj a) p") simp_all
  from valueAt_source[OF w] obtain b where y: "y = JObj b" ..
  have "applyDeepValue newColor (JObj a) (dottedPath (p # (pre @ rest))) v s
          = applyDeepValue newColor y (dottedPath (pre @ rest)) v s"
    using Cons.prems(2,3) m y by (intro applyDeepValue_descend) simp_all
  also have "\<dots> = applyDeepValue newColor (JObj t) (dottedPath rest) v s"
    unfolding y using w[unfolded y] Cons.prems(2,3) by (intro Cons.IH) simp_all
  finally show ?case by simp
qed

lemma applyDeepValue_missing:
  assumes "valueAt s (JObj a) pre = Some (JObj t)"
    and "list_all validSegment (pre @ missing # post)"
    and "member s (JObj t) missing = Some JUndefined"
  shows "applyDeepValue newColor (JObj a) (dottedPath (pre @ missing # post)) v s = Inr s"
proof -
  have "applyDeepValue newColor (JObj a) (dottedPath (pre @ missing # post)) v s
          = applyDeepValue newColor (JObj t) (dottedPath (missing # post)) v s"
    using assms(1,2) by (rule applyDeepValue_walk) simp
  also have "\<dots> = Inr s"
    using assms(2,3) by (intro applyDeepValue_undefined) simp_all
  finally show ?thesis .
qed

lemma applyDeepValue_resolved:
  assumes "valueAt s (JObj a) pre = Some (JObj t)" and "list_all validSegment (pre @ [p])"
    and "member s (JObj t) p = Some x" and "x \<noteq> JUndefined"
  shows "applyDeepValue newColor (JObj a) (dottedPath (pre @ [p])) v s
           = assignValue newColor (JObj t) p v s"
proof -
  have "applyDeepValue newColor (JObj a) (dottedPath (pre @ [p])) v s
          = applyDeepValue newColor (JObj t) (dottedPath [p]) v s"
    using assms(1,2) by (rule applyDeepValue_walk) simp
  also have "\<dots> = assignValue newColor (JObj t) p v s"
    using assms(2,3,4) by (intro applyDeepValue_last) simp_all
  finally show ?thesis .
qed

lemma warnings_assignValue:
  "assignValue newColor subj p v s = Inr s' \<Longrightarrow> warnings s' = warnings s"
  by (cases subj) (auto simp: assignValue_def store_defs allocObj_def split: if_splits)

lemma applyDeepValue_warns:
  assumes "list_all validSegment segs" and "segs \<noteq> []"
    and "applyDeepValue newColor subj (dottedPath segs) v s = Inr s'"
    and "warnings s' \<noteq> warnings s"
  shows "\<exists>pre post x. segs = pre @ post \<and> post \<noteq> [] \<and> valueAt s subj pre = Some x
           \<and> \<not> truthy x"
  using assms
proof (induction segs arbitrary: subj)
  case Nil
  then show ?case by simp
next
  case (Cons p rest)
  show ?case
  proof (cases "truthy subj")
    case False
    then have "p # rest = [] @ (p # rest) \<and> p # rest \<noteq> [] \<and> valueAt s subj [] = Some subj
                 \<and> \<not> truthy subj"
      by simp
    then show ?thesis by blast
  next
    case t: True
    show ?thesis
    proof (cases "member s subj p")
      case None
      with t Cons.prems(1) have "applyDeepValue newColor subj (dottedPath (p # rest)) v s
                                   = Inl Unmodelled"
        by (rule applyDeepValue_unheld)
      with Cons.prems(3) show ?thesis by simp
    next
      case (Some x)
      show ?thesis
      proof (cases "x = JUndefined")
        case True
        with t Cons.prems(1) Some
        have "applyDeepValue newColor subj (dottedPath (p # rest)) v s = Inr s"
          by (intro applyDeepValue_undefined) simp_all
        with Cons.prems(3,4) show ?thesis by simp
      next
        case d: False
        show ?thesis
        proof (cases "rest = []")
          case True
          from Cons.prems(1) have "validSegment p" by simp
          with t have "applyDeepValue newColor subj (dottedPath [p]) v s
                         = assignValue newColor subj p v s"
            using Some d by (rule applyDeepValue_last)
          with Cons.prems(3) True have "assignValue newColor subj p v s = Inr s'" by simp
          then have "warnings s' = warnings s" by (rule warnings_assignValue)
          with Cons.prems(4) show ?thesis by simp
        next
          case False
          have "applyDeepValue newColor subj (dottedPath (p # rest)) v s
                  = applyDeepValue newColor x (dottedPath rest) v s"
            using t Cons.prems(1) False Some d by (rule applyDeepValue_descend)
          with Cons.prems(3)
          have "applyDeepValue newColor x (dottedPath rest) v s = Inr s'" by simp
          with Cons.prems(1,4) False
          have "\<exists>pre post y. rest = pre @ post \<and> post \<noteq> [] \<and> valueAt s x pre = Some y
                  \<and> \<not> truthy y"
            by (intro Cons.IH) simp_all
          then obtain pre post y where "rest = pre @ post" "post \<noteq> []"
            "valueAt s x pre = Some y" "\<not> truthy y" by blast
          then have "p # rest = (p # pre) @ post \<and> post \<noteq> []
                  \<and> valueAt s subj (p # pre) = Some y \<and> \<not> truthy y"
            using Some by simp
          then show ?thesis by blast
        qed
      qed
    qed
  qed
qed

lemma assignValue_result:
  assumes "p \<notin> set (readonly (heap s t))" and "t < nxt s"
  shows "\<exists>s'. assignValue newColor (JObj t) p v s = Inr s'
           \<and> (if instanceofColorVal s (getProp (heap s t) p) \<and> typeofNumberOrString v
               then getProp (heap s' t) p = JObj (nxt s)
                  \<and> instanceofColor (heap s' (nxt s))
                  \<and> props (heap s' (nxt s)) = newColor v
               else getProp (heap s' t) p = v)"
  using assms
  by (simp add: assignValue_def store_defs allocObj_def colorObject_def getProp_def)

lemma applyEntries_append:
  "applyEntries newColor object3d (kvs1 @ kvs2) s =
     (case applyEntries newColor object3d kvs1 s of
        Inl err \<Rightarrow> Inl err
      | Inr s' \<Rightarrow> applyEntries newColor object3d kvs2 s')"
proof (induction kvs1 arbitrary: s)
  case Nil
  show ?case by simp
next
  case (Cons kv kvs1)
  obtain key v where kv: "kv = (key, v)" by (cases kv)
  show ?case
    by (cases "applyDeepValue newColor (JObj object3d) key v s") (simp_all add: kv Cons.IH)
qed

lemma shadowInv_refl: "shadowInv s s"
  by (simp add: shadowInv_def)

lemma shadowInv_children: "shadowInv s0 s \<Longrightarrow> children (heap s x) = children (heap s0 x)"
  by (simp add: shadowInv_def)

lemma shadowCallback_shadowInv: "shadowInv s0 s \<Longrightarrow> shadowInv s0 (shadowCallback b s)"
  by (simp add: shadowInv_def shadowCallback_def setupMaterial_def store_defs Let_def
      split: option.split)

lemma prepared_without_map:
  "objArgs a = None \<Longrightarrow> prepared newColor a s = Inr (instantiate (obj3d a) s)"
  by (simp add: prepared_def applyObjArgs_def split: prod.split)

lemma addObject3DComponent_without_map:
  "objArgs a = None \<Longrightarrow> instantiate (obj3d a) s0 = (object3d, s) \<Longrightarrow>
   addObject3DComponent newColor fuel e a s0 = attachNode fuel e object3d (parentEntity a) s"
  by (simp add: addObject3DComponent_def prepared_without_map)

lemma addObject3DComponent_nodeArgs:
  "addObject3DComponent newColor fuel e (nodeArgs object3d) s = attachNode fuel e object3d None s"
  by (simp add: addObject3DComponent_def prepared_without_map nodeArgs_def instantiate_def)

lemma addObject3DComponent_prepared:
  "prepared newColor a s = Inr (object3d, s2) \<Longrightarrow>
   addObject3DComponent newColor fuel e a s = attachNode fuel e object3d (parentEntity a) s2"
  by (simp add: addObject3DComponent_def)

section \<open>Attaching the components\<close>

lemma fold_addComponent_frame:
  "heap (fold (\<lambda>C. addComponent e C v) Cs s) = heap s"
  "removals (fold (\<lambda>C. addComponent e C v) Cs s) = removals s"
  "nxt (fold (\<lambda>C. addComponent e C v) Cs s) = nxt s"
  "scene (fold (\<lambda>C. addComponent e C v) Cs s) = scene s"
  "csm (fold (\<lambda>C. addComponent e C v) Cs s) = csm s"
  "warnings (fold (\<lambda>C. addComponent e C v) Cs s) = warnings s"
  by (induction Cs arbitrary: s) (simp_all add: addComponent_frame)

lemma entities_addComponent_other:
  "e' \<noteq> e \<Longrightarrow> entities (addComponent e C v s) e' = entities s e'"
  by (simp add: addComponent_def)

lemma fold_addComponent_other:
  "e' \<noteq> e \<Longrightarrow> entities (fold (\<lambda>C. addComponent e C v) Cs s) e' = entities s e'"
  by (induction Cs arbitrary: s) (simp_all add: entities_addComponent_other)

lemma fold_addComponent_types:
  "set (componentTypes (fold (\<lambda>C. addComponent e C v) Cs s) e)
     = set (componentTypes s e) \<union> set Cs"
proof (induction Cs arbitrary: s)
  case Nil
  show ?case by simp
next
  case (Cons C Cs)
  have "set (componentTypes (addComponent e C v s) e) = insert C (set (componentTypes s e))"
    by (auto simp: componentTypes_addComponent)
  then show ?case using Cons.IH[of "addComponent e C v s"] by simp
qed



lemma getComponent_addComponent:
  "getComponent (addComponent e C v s) e' D fi =
     (if e' = e \<and> D = C \<and> getComponent s e C fi = None then Some \<lparr>cvalue = v\<rparr>
      else getComponent s e' D fi)"
proof (cases "hasComponent s e C")
  case True
  then have "map_of (entities s e) C \<noteq> None"
    by (simp add: hasComponent_def componentTypes_def map_of_eq_None_iff)
  with True show ?thesis by (simp add: getComponent_def addComponent_def)
next
  case False
  then have none: "map_of (entities s e) C = None"
    by (simp add: hasComponent_def componentTypes_def map_of_eq_None_iff)
  show ?thesis
  proof (cases "e' = e")
    case True
    show ?thesis
      using False none True
      by (cases "map_of (entities s e) D")
         (auto simp: getComponent_def addComponent_def map_add_def)
  next
    case False
    then show ?thesis by (simp add: getComponent_def addComponent_def)
  qed
qed

lemma fold_addComponent_lookup:
  "D \<notin> set Cs \<Longrightarrow>
   getComponent (fold (\<lambda>C. addComponent e C v) Cs s) e' D fi = getComponent s e' D fi"
  by (induction Cs arbitrary: s) (simp_all add: getComponent_addComponent)

lemma tableChain_tags:
  "set (tableChain rows ob)
     \<subseteq> set (concat (map (\<lambda>(test, tag, groups). tag # map snd (concat groups)) rows))"
proof (induction rows)
  case Nil
  show ?case by simp
next
  case (Cons r rows)
  obtain test tag groups where r: "r = (test, tag, groups)" by (cases r)
  have one: "set (firstApplicable ob alts) \<subseteq> snd ` set alts" for alts
  proof (induction alts)
    case Nil
    show ?case by (simp add: firstApplicable_Nil)
  next
    case (Cons x alts)
    obtain t g where x: "x = (t, g)" by (cases x)
    show ?case using Cons by (auto simp: x firstApplicable_Cons)
  qed
  have "set (concat (map (firstApplicable ob) groups)) \<subseteq> snd ` set (concat groups)"
    using one by fastforce
  then show ?case using Cons by (auto simp: r)
qed

lemma Object3DComponent_no_tag: "Object3DComponent \<notin> set (getComponentTags ob)"
proof -
  have "Object3DComponent
          \<notin> set (concat (map (\<lambda>(test, tag, groups). tag # map snd (concat groups))
                   dispatchTable))"
    by (simp add: dispatchTable_def)
  then have "Object3DComponent \<notin> set (tableChain dispatchTable ob)"
    using tableChain_tags[of dispatchTable ob] by blast
  then show ?thesis by (simp add: set_getComponentTags tagChain_tableChain)
qed

lemma attachComponents_frame:
  "heap (attachComponents e object3d s) = heap s"
  "removals (attachComponents e object3d s) = removals s"
  "nxt (attachComponents e object3d s) = nxt s"
  "scene (attachComponents e object3d s) = scene s"
  "csm (attachComponents e object3d s) = csm s"
  "warnings (attachComponents e object3d s) = warnings s"
  by (simp_all add: attachComponents_def Let_def fold_addComponent_frame addComponent_frame)

lemma attachComponents_other:
  "e' \<noteq> e \<Longrightarrow> entities (attachComponents e object3d s) e' = entities s e'"
  by (simp add: attachComponents_def Let_def fold_addComponent_other entities_addComponent_other)

lemma attachComponents_types:
  "set (componentTypes (attachComponents e object3d s) e)
     = set (componentTypes s e) \<union> {Object3DComponent}
       \<union> set (getComponentTags (heap s object3d))"
  by (auto simp: attachComponents_def Let_def fold_addComponent_types addComponent_frame
      componentTypes_addComponent)


lemma attachComponents_lookup:
  "getComponent (attachComponents e object3d s) e' Object3DComponent fi =
     (if e' = e \<and> getComponent s e Object3DComponent fi = None
      then Some \<lparr>cvalue = Some object3d\<rparr>
      else getComponent s e' Object3DComponent fi)"
  by (simp add: attachComponents_def Let_def fold_addComponent_lookup Object3DComponent_no_tag
      getComponent_addComponent addComponent_frame)

lemma addToParent_returns:
  assumes "case pe of None \<Rightarrow> True
           | Some p \<Rightarrow> (case getComponent s p Object3DComponent False of
                          None \<Rightarrow> True | Some c \<Rightarrow> cvalue c \<noteq> None)"
  shows "\<exists>pnode. addToParent pe object3d s = Inr (object3D_add pnode object3d s)"
proof (cases pe)
  case None
  then have "addToParent pe object3d s = Inr (object3D_add (scene s) object3d s)"
    by (simp add: addToParent_def)
  then show ?thesis by blast
next
  case (Some p)
  show ?thesis
  proof (cases "hasComponent s p Object3DComponent")
    case False
    with Some have "addToParent pe object3d s = Inr (object3D_add (scene s) object3d s)"
      by (simp add: addToParent_def)
    then show ?thesis by blast
  next
    case True
    then have "map_of (entities s p) Object3DComponent \<noteq> None"
      by (simp add: hasComponent_def componentTypes_def map_of_eq_None_iff)
    then obtain c where c: "getComponent s p Object3DComponent False = Some c"
      by (auto simp: getComponent_def)
    with assms Some obtain pnode where "cvalue c = Some pnode" by auto
    with Some True c have "addToParent pe object3d s = Inr (object3D_add pnode object3d s)"
      by (simp add: addToParent_def)
    then show ?thesis by blast
  qed
qed

lemma traverse_shadowCallback:
  assumes "subtreeWithin (heap s2) n fuel object3d"
  shows "\<exists>s3. traverse fuel shadowCallback object3d s2 = Some s3 \<and> shadowInv s2 s3"
proof (rule traverse_returns[where I = "shadowInv s2" and ?h0.0 = "heap s2" and r = object3d])
  show "children (heap s x) = children (heap s2 x)" if "shadowInv s2 s" for s x
    using that by (rule shadowInv_children)
  show "shadowInv s2 (shadowCallback b s)" if "shadowInv s2 s" for b s
    using that by (rule shadowCallback_shadowInv)
  show "subtreeWithin (heap s2) n fuel object3d" by (rule assms)
  show "descendant (heap s2) object3d object3d" by (rule descendant.self)
  show "shadowInv s2 s2" by (rule shadowInv_refl)
qed

lemma attachNode_returns:
  assumes pre: "attachPrecondition fuel object3d pe s"
  shows "\<exists>s3 pnode. traverse fuel shadowCallback object3d s = Some s3 \<and> shadowInv s s3
           \<and> attachNode fuel e object3d pe s
               = Some (Inr (setEntity object3d (Some e)
                    (object3D_add pnode object3d (attachComponents e object3d s3))))"
proof -
  from pre have "subtreeWithin (heap s) (nxt s) fuel object3d"
    by (simp add: attachPrecondition_def)
  from traverse_shadowCallback[OF this] obtain s3
    where t: "traverse fuel shadowCallback object3d s = Some s3" and inv: "shadowInv s s3"
    by blast
  let ?s5 = "attachComponents e object3d s3"
  have ents: "entities s3 = entities s"
    using inv by (simp add: shadowInv_def)
  have look3: "getComponent s3 = getComponent s" using ents by (rule entities_cong)
  have "case pe of None \<Rightarrow> True
        | Some p \<Rightarrow> (case getComponent ?s5 p Object3DComponent False of
                        None \<Rightarrow> True | Some c \<Rightarrow> cvalue c \<noteq> None)"
    using pre
    by (auto simp: attachPrecondition_def attachComponents_lookup look3
        split: option.splits if_splits)
  from addToParent_returns[OF this, of object3d] obtain pnode
    where "addToParent pe object3d ?s5 = Inr (object3D_add pnode object3d ?s5)"
    by blast
  then have "attachNode fuel e object3d pe s
               = Some (Inr (setEntity object3d (Some e) (object3D_add pnode object3d ?s5)))"
    by (simp add: attachNode_def t insertNode_def)
  with t inv show ?thesis by blast
qed

section \<open>What the dispatch reads\<close>

lemma props_getProp: "props ob = props ob' \<Longrightarrow> getProp ob p = getProp ob' p"
  by (simp add: getProp_def)

lemma props_tests:
  assumes "props ob = props ob'"
  shows "marker name ob = marker name ob'" and "typeIs name ob = typeIs name ob'"
    and "positionalAudio ob = positionalAudio ob'"
  using props_getProp[OF assms]
  by (simp_all add: marker_def typeIs_def positionalAudio_def)

lemma props_getComponentTags:
  assumes "props ob = props ob'"
  shows "getComponentTags ob = getComponentTags ob'"
  unfolding getComponentTags_def tagChain_def
  by (simp only: props_tests[OF assms])

lemma props_tableTags: "props ob = props ob' \<Longrightarrow> tableTags ob = tableTags ob'"
  using props_getComponentTags[of ob ob'] by (simp add: getComponentTags_tableTags[symmetric])

text \<open>
  C1. For every node, attaching it with \<^verbatim>\<open>addObject3DComponent\<close> attaches the scene-node
  reference and exactly the tags that the table of section 4.1 gives for the node. The
  statement is about the part of the function that attaches (lines 133 to 157), for every
  node and every state in which line 133 is reached, whatever the property map did before;
  a call without a property map is this part and nothing else. When the node's subtree is
  finite within the fuel and a parent entity with a reference has a node, the call
  returns, and the component types of the entity afterwards are those it had,
  \<^verbatim>\<open>Object3DComponent\<close> and the tags of the table. A node whose first matching row is the
  mesh row, with \<^verbatim>\<open>isSkinnedMesh\<close> set and \<^verbatim>\<open>isInstancedMesh\<close> not, gets the mesh tag
  and the skinned-mesh tag and no other; a node that no row matches gets no tag.
\<close>

theorem addObject3DComponent_attaches_table_tags:
  assumes "attachPrecondition fuel object3d pe s"
  shows "\<exists>s'. attachNode fuel e object3d pe s = Some (Inr s')
     \<and> (\<forall>newColor a s0.
           objArgs a = None \<and> instantiate (obj3d a) s0 = (object3d, s) \<and> parentEntity a = pe
           \<longrightarrow> addObject3DComponent newColor fuel e a s0 = Some (Inr s'))
     \<and> (let node = heap s' object3d in
          set (componentTypes s' e)
            = set (componentTypes s e) \<union> {Object3DComponent} \<union> tableTags node
        \<and> (firstRowTag node = Some MeshTagComponent \<and> \<not> marker ''isInstancedMesh'' node
             \<and> marker ''isSkinnedMesh'' node \<longrightarrow>
           set (componentTypes s' e)
             = set (componentTypes s e)
               \<union> {Object3DComponent, MeshTagComponent, SkinnedMeshTagComponent})
        \<and> (firstRowTag node = None \<longrightarrow>
           set (componentTypes s' e) = set (componentTypes s e) \<union> {Object3DComponent}))"
proof -
  from attachNode_returns[OF assms, of e] obtain s3 pnode
    where inv: "shadowInv s s3"
      and run: "attachNode fuel e object3d pe s
               = Some (Inr (setEntity object3d (Some e)
                    (object3D_add pnode object3d (attachComponents e object3d s3))))"
    by blast
  let ?s' = "setEntity object3d (Some e)
               (object3D_add pnode object3d (attachComponents e object3d s3))"
  let ?node = "heap ?s' object3d"
  have ents': "entities ?s' = entities (attachComponents e object3d s3)"
    by (simp add: setEntity_frame object3D_add_frame)
  have ents3: "entities s3 = entities s"
    using inv by (simp add: shadowInv_def)
  have pr: "props ?node = props (heap s3 object3d)"
    by (simp add: setEntity_frame object3D_add_frame attachComponents_frame)
  have tags: "getComponentTags ?node = getComponentTags (heap s3 object3d)"
    using pr by (rule props_getComponentTags)
  have tys: "set (componentTypes ?s' e)
           = set (componentTypes s e) \<union> {Object3DComponent} \<union> set (getComponentTags ?node)"
    unfolding entities_cong(1)[OF ents'] attachComponents_types tags
      entities_cong(1)[OF ents3] ..
  have a: "set (componentTypes ?s' e)
           = set (componentTypes s e) \<union> {Object3DComponent} \<union> tableTags ?node"
    using tys by (simp only: getComponentTags_tableTags)
  have b: "set (componentTypes ?s' e)
             = set (componentTypes s e)
               \<union> {Object3DComponent, MeshTagComponent, SkinnedMeshTagComponent}"
    if "firstRowTag ?node = Some MeshTagComponent" "\<not> marker ''isInstancedMesh'' ?node"
      "marker ''isSkinnedMesh'' ?node"
    unfolding tys skinned_mesh_tags[OF that] by auto
  have c: "set (componentTypes ?s' e) = set (componentTypes s e) \<union> {Object3DComponent}"
    if "firstRowTag ?node = None"
    unfolding tys unmatched_no_tags[OF that] by simp
  have link: "addObject3DComponent newColor fuel e a s0 = Some (Inr ?s')"
    if "objArgs a = None" "instantiate (obj3d a) s0 = (object3d, s)" "parentEntity a = pe"
    for newColor a s0
    using addObject3DComponent_without_map[OF that(1,2), of newColor fuel e] run that(3)
    by simp
  from run a b c link show ?thesis by (simp add: Let_def)
qed

section \<open>The example scene\<close>

lemma exampleHeap_children:
  "children (exampleHeap 2) = []" "children (exampleHeap 8) = [9]"
  "children (exampleHeap 9) = []" "children (exampleHeap 0) = []"
  by (simp_all add: exampleHeap_def objectWith_def nodeWith_def)

lemma exampleHeap_props:
  "getProp (exampleHeap 2) p =
     (case map_of [(''type'', JStr ''SkinnedMesh''), (''isMesh'', JBool True),
                   (''isSkinnedMesh'', JBool True), (''material'', JObj 3),
                   (''castShadow'', JBool False), (''receiveShadow'', JBool True)] p of
        None \<Rightarrow> JUndefined | Some v \<Rightarrow> v)"
  "getProp (exampleHeap 8) p =
     (case map_of [(''type'', JStr ''Group''), (''isGroup'', JBool True)] p of
        None \<Rightarrow> JUndefined | Some v \<Rightarrow> v)"
  "getProp (exampleHeap 9) p =
     (case map_of [(''type'', JStr ''Mesh''), (''isMesh'', JBool True),
                   (''material'', JObj 10), (''castShadow'', JBool False),
                   (''receiveShadow'', JBool False)] p of
        None \<Rightarrow> JUndefined | Some v \<Rightarrow> v)"
  by (simp_all add: exampleHeap_def objectWith_def nodeWith_def getProp_def)

lemma exampleState_fields:
  "heap exampleState = exampleHeap" "nxt exampleState = 11" "scene exampleState = 0"
  "entities exampleState = (\<lambda>e. [])" "removals exampleState = []" "csm exampleState = None"
  by (simp_all add: exampleState_def)

lemma nodeArgs_fields:
  "obj3d (nodeArgs a) = Instance a" "objArgs (nodeArgs a) = None"
  "parentEntity (nodeArgs a) = None"
  by (simp_all add: nodeArgs_def)

lemma attachPrecondition_example_2: "attachPrecondition (Suc (Suc 0)) 2 None exampleState"
  by (simp add: attachPrecondition_def exampleState_fields exampleHeap_children)

lemma attachPrecondition_example_8: "attachPrecondition (Suc (Suc 0)) 8 None exampleState"
  by (simp add: attachPrecondition_def exampleState_fields exampleHeap_children)

theorem addObject3DComponent_attaches_table_tags_witness:
  "attachPrecondition (Suc (Suc 0)) 2 None exampleState
   \<and> (\<exists>s'. addObject3DComponent (\<lambda>v. Map.empty) (Suc (Suc 0)) 0 (nodeArgs 2) exampleState = Some (Inr s')
         \<and> set (componentTypes s' 0)
             = {Object3DComponent, MeshTagComponent, SkinnedMeshTagComponent})"
proof -
  note pre = attachPrecondition_example_2
  have none: "componentTypes exampleState 0 = []"
    by (simp add: componentTypes_def exampleState_fields)
  from addObject3DComponent_attaches_table_tags[OF pre, of 0]
  obtain s' where run: "attachNode (Suc (Suc 0)) 0 2 None exampleState = Some (Inr s')"
    and mesh: "firstRowTag (heap s' 2) = Some MeshTagComponent
               \<and> \<not> marker ''isInstancedMesh'' (heap s' 2)
               \<and> marker ''isSkinnedMesh'' (heap s' 2) \<longrightarrow>
               set (componentTypes s' 0)
                 = {Object3DComponent, MeshTagComponent, SkinnedMeshTagComponent}"
    unfolding none Let_def by auto
  obtain s3 pnode where inv: "shadowInv exampleState s3"
    and run': "attachNode (Suc (Suc 0)) 0 2 None exampleState
               = Some (Inr (setEntity 2 (Some 0)
                    (object3D_add pnode 2 (attachComponents 0 2 s3))))"
    using attachNode_returns[OF pre, of 0] by blast
  from run run' have s': "s' = setEntity 2 (Some 0) (object3D_add pnode 2 (attachComponents 0 2 s3))"
    by simp
  have look: "getProp (heap s' 2) p = getProp (exampleHeap 2) p"
    if "p \<noteq> ''castShadow''" "p \<noteq> ''receiveShadow''" for p
    using inv that
    by (simp add: s' setEntity_frame object3D_add_frame attachComponents_frame
        shadowInv_def getProp_def exampleState_fields)
  have "firstRowTag (heap s' 2) = Some MeshTagComponent"
    by (simp add: firstRowTag_rowTag dispatchTable_def positionalAudio_def typeIs_def
        marker_def look exampleHeap_props)
  moreover have "\<not> marker ''isInstancedMesh'' (heap s' 2)"
    by (simp add: marker_def look exampleHeap_props)
  moreover have "marker ''isSkinnedMesh'' (heap s' 2)"
    by (simp add: marker_def look exampleHeap_props)
  ultimately have "set (componentTypes s' 0)
                 = {Object3DComponent, MeshTagComponent, SkinnedMeshTagComponent}"
    using mesh by blast
  with pre run show ?thesis by (simp add: addObject3DComponent_nodeArgs)
qed

text \<open>
  C6. For an entity that holds a scene-node reference with a node in it, and whose
  component types are distinct, \<^verbatim>\<open>removeObject3DComponent\<close> returns, and afterwards
  \<^verbatim>\<open>getObject3D\<close> gives nothing for the entity, no component type of the entity is
  marked as a tag (the types left are those unmarked ones it had, the reference apart),
  and the back-reference of the node is cleared.
\<close>

theorem removeObject3DComponent_detaches:
  assumes "getComponent s e Object3DComponent True = Some c"
    and "cvalue c = Some object3d"
    and "distinct (componentTypes s e)"
  shows "\<exists>s'. removeObject3DComponent isObject3DTagComponent e unparent s = Inr s'
           \<and> getObject3D s' e = None
           \<and> list_all (\<lambda>C. \<not> isObject3DTagComponent C) (componentTypes s' e)
           \<and> componentTypes s' e
               = filter (\<lambda>C. C \<noteq> Object3DComponent \<and> \<not> isObject3DTagComponent C)
                   (componentTypes s e)
           \<and> entity (heap s' object3d) = None"
proof -
  let ?L = "filter (\<lambda>x. \<not> isObject3DTagComponent (fst x))
              (removeFirst Object3DComponent (entities s e))"
  from removeObject3DComponent_unfold[OF assms, of isObject3DTagComponent unparent]
  obtain s2 where r: "removeObject3DComponent isObject3DTagComponent e unparent s
           = Inr (setEntity object3d None (s2\<lparr>entities := (entities s)(e := ?L)\<rparr>))"
    by blast
  let ?s' = "setEntity object3d None (s2\<lparr>entities := (entities s)(e := ?L)\<rparr>)"
  have d: "distinct (map fst (entities s e))"
    using assms(3) by (simp add: componentTypes_def)
  have ents: "entities ?s' e = ?L" by (simp add: setEntity_frame)
  have tys: "componentTypes ?s' e
           = filter (\<lambda>C. C \<noteq> Object3DComponent \<and> \<not> isObject3DTagComponent C)
               (componentTypes s e)"
    unfolding componentTypes_def ents using filter_removeFirst_types[OF d] .
  have "Object3DComponent \<notin> fst ` set ?L"
  proof -
    have "Object3DComponent \<notin> set (map fst ?L)"
      unfolding filter_removeFirst_types[OF d] by simp
    then show ?thesis by simp
  qed
  then have "map_of ?L Object3DComponent = None" by (simp add: map_of_eq_None_iff)
  then have lookup: "getObject3D ?s' e = None"
    by (simp add: getObject3D_def getComponent_def ents)
  have notag: "list_all (\<lambda>C. \<not> isObject3DTagComponent C) (componentTypes ?s' e)"
    unfolding tys by (simp add: list_all_iff)
  have bref: "entity (heap ?s' object3d) = None" by (simp add: setEntity_frame)
  from r lookup notag tys bref show ?thesis by blast
qed

lemma attachedState_entity:
  "entities attachedState 0
     = [(TransformComponent, \<lparr>cvalue = None\<rparr>), (Object3DComponent, \<lparr>cvalue = Some 2\<rparr>),
        (MeshTagComponent, \<lparr>cvalue = None\<rparr>), (SkinnedMeshTagComponent, \<lparr>cvalue = None\<rparr>)]"
  by (simp add: attachedState_def)

theorem removeObject3DComponent_detaches_witness:
  "getComponent attachedState 0 Object3DComponent True = Some \<lparr>cvalue = Some 2\<rparr>
   \<and> distinct (componentTypes attachedState 0)
   \<and> (\<exists>s'. removeObject3DComponent importedTag 0 True attachedState = Inr s'
         \<and> getObject3D s' 0 = None
         \<and> componentTypes s' 0 = [TransformComponent]
         \<and> entity (heap s' 2) = None)"
proof -
  have c: "getComponent attachedState 0 Object3DComponent True = Some \<lparr>cvalue = Some 2\<rparr>"
    by (simp add: getComponent_def attachedState_entity)
  have v: "cvalue \<lparr>cvalue = Some 2\<rparr> = Some (2::nat)" by simp
  have tys: "componentTypes attachedState 0
               = [TransformComponent, Object3DComponent, MeshTagComponent,
                  SkinnedMeshTagComponent]"
    by (simp add: componentTypes_def attachedState_entity)
  have d: "distinct (componentTypes attachedState 0)" by (simp add: tys)
  from removeObject3DComponent_detaches[OF c v d, of importedTag True]
  obtain s' where "removeObject3DComponent importedTag 0 True attachedState = Inr s'"
    "getObject3D s' 0 = None" "entity (heap s' 2) = None"
    "componentTypes s' 0
       = filter (\<lambda>C. C \<noteq> Object3DComponent \<and> \<not> importedTag C)
           (componentTypes attachedState 0)"
    by blast
  moreover have "filter (\<lambda>C. C \<noteq> Object3DComponent \<and> \<not> importedTag C)
                   (componentTypes attachedState 0) = [TransformComponent]"
    by (simp add: tys importedTag_def)
  ultimately show ?thesis using c d by auto
qed

section \<open>Detaching without a reference\<close>

lemma removeObject3DComponent_absent:
  "getComponent s e Object3DComponent True = None \<Longrightarrow>
   removeObject3DComponent isTag e unparent s = Inl TypeError"
  by (simp add: removeObject3DComponent_def)

text \<open>
  C5. The specification has \<^verbatim>\<open>removeObject3DComponent\<close> do nothing, silently, for an
  entity without a scene-node reference. The code reads \<^verbatim>\<open>.value\<close> off the result of
  \<^verbatim>\<open>getComponent\<close> before it tests anything: for an entity without the component that
  result is absent and the read raises a \<^verbatim>\<open>TypeError\<close>. Entity 0 of the example scene has
  no component; \<^verbatim>\<open>getObject3D\<close>, which tests the component first, returns nothing for it.
\<close>

theorem removeObject3DComponent_without_reference_raises:
  "getObject3D exampleState 0 = None
   \<and> removeObject3DComponent isObject3DTagComponent 0 unparent exampleState = Inl TypeError"
proof -
  have "getComponent exampleState 0 Object3DComponent fi = None" for fi
    by (simp add: getComponent_def exampleState_fields)
  then show ?thesis
    by (simp add: getObject3D_def removeObject3DComponent_absent)
qed

section \<open>The shadow policy\<close>

lemma readProp_shadowInv:
  "shadowInv s0 s \<Longrightarrow> p \<noteq> ''castShadow'' \<Longrightarrow> p \<noteq> ''receiveShadow'' \<Longrightarrow>
   readProp s v p = readProp s0 v p"
  by (cases v) (simp_all add: readProp_def getProp_def shadowInv_def)

lemma getProp_shadowInv:
  "shadowInv s0 s \<Longrightarrow> p \<noteq> ''castShadow'' \<Longrightarrow> p \<noteq> ''receiveShadow'' \<Longrightarrow>
   getProp (heap s b) p = getProp (heap s0 b) p"
  by (simp add: getProp_def shadowInv_def)

lemma lightmap_shadowInv: "shadowInv s0 s \<Longrightarrow> lightmap s b = lightmap s0 b"
  by (simp add: lightmap_def readProp_shadowInv getProp_shadowInv)

lemma typeIs_shadowInv: "shadowInv s0 s \<Longrightarrow> typeIs name (heap s b) = typeIs name (heap s0 b)"
  by (simp add: typeIs_def getProp_shadowInv)

lemma writeProp_shadowInv:
  "p = ''castShadow'' \<or> p = ''receiveShadow'' \<Longrightarrow> shadowInv s (writeProp a p v s)"
  by (auto simp: shadowInv_def store_defs)

lemma getProp_writeProp:
  "getProp (heap (writeProp a p v s) x) q = (if x = a \<and> q = p then v else getProp (heap s x) q)"
  by (simp add: store_defs getProp_def)

lemma heap_setupMaterial: "heap (setupMaterial m s) = heap s"
  by (simp add: setupMaterial_def split: option.split)

text \<open>What the callback leaves in a property of an object.\<close>

lemma shadowCallback_getProp:
  "getProp (heap (shadowCallback b s) x) q =
     (if x = b \<and> (typeIs ''Mesh'' (heap s b) \<or> typeIs ''SkinnedMesh'' (heap s b))
         \<and> (q = ''castShadow'' \<or> q = ''receiveShadow'' \<and> \<not> truthy (lightmap s b))
      then JBool True
      else getProp (heap s x) q)"
proof -
  let ?s1 = "writeProp b ''castShadow'' (JBool True) s"
  have lm: "lightmap ?s1 b = lightmap s b"
    by (rule lightmap_shadowInv) (simp add: writeProp_shadowInv)
  show ?thesis
    by (auto simp: shadowCallback_def Let_def lm getProp_writeProp heap_setupMaterial)
qed

lemma traverse_shadowCallback_visits:
  assumes run: "traverse fuel shadowCallback object3d s2 = Some s3"
    and d: "descendant (heap s2) object3d b"
    and m: "typeIs ''Mesh'' (heap s2 b) \<or> typeIs ''SkinnedMesh'' (heap s2 b)"
  shows "getProp (heap s3 b) ''castShadow'' = JBool True
       \<and> getProp (heap s3 b) ''receiveShadow''
           = (if truthy (lightmap s2 b) then getProp (heap s2 b) ''receiveShadow''
              else JBool True)"
proof -
  let ?I = "\<lambda>t. shadowInv s2 t
              \<and> (\<forall>x. truthy (lightmap s2 x) \<longrightarrow>
                    getProp (heap t x) ''receiveShadow'' = getProp (heap s2 x) ''receiveShadow'')"
  let ?Q = "\<lambda>x t. (typeIs ''Mesh'' (heap s2 x) \<or> typeIs ''SkinnedMesh'' (heap s2 x)) \<longrightarrow>
              getProp (heap t x) ''castShadow'' = JBool True
              \<and> (\<not> truthy (lightmap s2 x) \<longrightarrow>
                    getProp (heap t x) ''receiveShadow'' = JBool True)"
  have "?I s3 \<and> (\<forall>x. ?Q x s2 \<longrightarrow> ?Q x s3) \<and> (\<forall>x. descendant (heap s2) object3d x \<longrightarrow> ?Q x s3)"
  proof (rule traverse_visits[where I = ?I and Q = ?Q and ?h0.0 = "heap s2" and r = object3d
        and callback = shadowCallback and k = fuel and s = s2 and a = object3d])
    show "children (heap t x) = children (heap s2 x)" if "?I t" for t x
      using that by (simp add: shadowInv_children)
    show "?I (shadowCallback x t)" if "?I t" for x t
    proof -
      from that have inv: "shadowInv s2 t"
        and r: "\<And>y. truthy (lightmap s2 y) \<Longrightarrow>
                  getProp (heap t y) ''receiveShadow'' = getProp (heap s2 y) ''receiveShadow''"
        by simp_all
      show ?thesis
        using r
        by (simp add: shadowCallback_shadowInv[OF inv] shadowCallback_getProp
            lightmap_shadowInv[OF inv])
    qed
    show "?Q x (shadowCallback x t)" if "?I t" for x t
    proof -
      from that have inv: "shadowInv s2 t" by simp
      show ?thesis
        by (simp add: shadowCallback_getProp lightmap_shadowInv[OF inv]
            typeIs_shadowInv[OF inv])
    qed
    show "?Q x (shadowCallback c t)" if "?I t" "?Q x t" for x c t
    proof -
      from that have inv: "shadowInv s2 t" by simp
      show ?thesis
        using that(2)
        by (simp add: shadowCallback_getProp lightmap_shadowInv[OF inv]
            typeIs_shadowInv[OF inv])
    qed
    show "?I s2" by (simp add: shadowInv_refl)
    show "descendant (heap s2) object3d object3d" by (rule descendant.self)
    show "traverse fuel shadowCallback object3d s2 = Some s3" by (rule run)
  qed
  with d m show ?thesis by auto
qed

text \<open>
  C4, as the code has it. For every mesh or skinned mesh in the subtree of the attached
  node, \<^verbatim>\<open>castShadow\<close> is \<^verbatim>\<open>true\<close> after attachment. \<^verbatim>\<open>receiveShadow\<close> is \<^verbatim>\<open>true\<close> when
  the material carries no lightmap flag; when it carries one, \<^verbatim>\<open>receiveShadow\<close> is not
  written: it has the value it had when the walk started (\<^verbatim>\<open>false\<close> only if it was).
  The subtree, the types and the flag are those of the state in which the walk of line 133
  starts: the statement is about lines 133 to 157, for every node and every state in
  which line 133 is reached, whatever the property map did before; a call without a
  property map is this part and nothing else.
\<close>

theorem addObject3DComponent_shadow_policy:
  assumes "attachPrecondition fuel object3d pe s"
    and "descendant (heap s) object3d b"
    and "typeIs ''Mesh'' (heap s b) \<or> typeIs ''SkinnedMesh'' (heap s b)"
  shows "\<exists>s'. attachNode fuel e object3d pe s = Some (Inr s')
           \<and> (\<forall>newColor a s0.
                 objArgs a = None \<and> instantiate (obj3d a) s0 = (object3d, s)
                 \<and> parentEntity a = pe
                 \<longrightarrow> addObject3DComponent newColor fuel e a s0 = Some (Inr s'))
           \<and> getProp (heap s' b) ''castShadow'' = JBool True
           \<and> getProp (heap s' b) ''receiveShadow''
               = (if truthy (lightmap s b) then getProp (heap s b) ''receiveShadow''
                  else JBool True)"
proof -
  from attachNode_returns[OF assms(1), of e] obtain s3 pnode
    where t: "traverse fuel shadowCallback object3d s = Some s3"
      and run: "attachNode fuel e object3d pe s
               = Some (Inr (setEntity object3d (Some e)
                    (object3D_add pnode object3d (attachComponents e object3d s3))))"
    by blast
  let ?s' = "setEntity object3d (Some e)
               (object3D_add pnode object3d (attachComponents e object3d s3))"
  have same: "getProp (heap ?s' b) p = getProp (heap s3 b) p" for p
    by (simp add: getProp_def setEntity_frame object3D_add_frame attachComponents_frame)
  have link: "addObject3DComponent newColor fuel e a s0 = Some (Inr ?s')"
    if "objArgs a = None" "instantiate (obj3d a) s0 = (object3d, s)" "parentEntity a = pe"
    for newColor a s0
    using addObject3DComponent_without_map[OF that(1,2), of newColor fuel e] run that(3)
    by simp
  from traverse_shadowCallback_visits[OF t assms(2,3)] same run link show ?thesis by simp
qed

section \<open>Runs on the example scene\<close>

lemmas eval_defs =
  addObject3DComponent_def prepared_def attachNode_def instantiate_def applyObjArgs_def
  nodeArgs_def shadowCallback_def lightmap_def readProp_def typeIs_def marker_def positionalAudio_def
  setupMaterial_def attachComponents_def getComponentTags_def tagChain_def
  insertNode_def addToParent_def object3D_add_def object3D_remove_def
  addComponent_def hasComponent_def componentTypes_def getComponent_def
  store_defs exampleState_def exampleHeap_def objectWith_def nodeWith_def plainObject_def
  getProp_def
  propAfter_def Let_def

theorem addObject3DComponent_shadow_policy_witness:
  "attachPrecondition (Suc (Suc 0)) 8 None exampleState
   \<and> descendant exampleHeap 8 9
   \<and> typeIs ''Mesh'' (exampleHeap 9)
   \<and> \<not> truthy (lightmap exampleState 9)
   \<and> (\<exists>s'. addObject3DComponent exampleColor (Suc (Suc 0)) 0 (nodeArgs 8) exampleState
               = Some (Inr s')
         \<and> getProp (heap s' 9) ''castShadow'' = JBool True
         \<and> getProp (heap s' 9) ''receiveShadow'' = JBool True)"
proof -
  note pre = attachPrecondition_example_8
  have d: "descendant (heap exampleState) 8 9"
    unfolding exampleState_fields
    by (rule descendant.child[where c = 9]) (simp_all add: exampleHeap_children descendant.self)
  have m: "typeIs ''Mesh'' (heap exampleState 9) \<or> typeIs ''SkinnedMesh'' (heap exampleState 9)"
    by (simp add: typeIs_def exampleState_fields exampleHeap_props)
  have l: "\<not> truthy (lightmap exampleState 9)"
    by (simp add: lightmap_def readProp_def exampleState_fields exampleHeap_props
        exampleHeap_def objectWith_def nodeWith_def getProp_def)
  from addObject3DComponent_shadow_policy[OF pre d m, of 0] l
  have "\<exists>s'. addObject3DComponent exampleColor (Suc (Suc 0)) 0 (nodeArgs 8) exampleState
               = Some (Inr s')
         \<and> getProp (heap s' 9) ''castShadow'' = JBool True
         \<and> getProp (heap s' 9) ''receiveShadow'' = JBool True"
    unfolding addObject3DComponent_nodeArgs by auto
  with pre d m l show ?thesis
    by (simp add: exampleState_fields typeIs_def exampleHeap_props)
qed

text \<open>
  Against C4 as the specification words it: node 2 of the example scene is a skinned mesh
  whose material carries the lightmap flag, and it receives shadows when it is attached.
  After attachment \<^verbatim>\<open>receiveShadow\<close> is still \<^verbatim>\<open>true\<close>, not \<^verbatim>\<open>false\<close>.
\<close>

theorem lightmapped_mesh_keeps_receiveShadow:
  "typeIs ''SkinnedMesh'' (heap exampleState 2)
   \<and> truthy (lightmap exampleState 2)
   \<and> propAfter (addObject3DComponent exampleColor (Suc 0) 0 (nodeArgs 2) exampleState)
        2 ''castShadow'' = Some (JBool True)
   \<and> propAfter (addObject3DComponent exampleColor (Suc 0) 0 (nodeArgs 2) exampleState)
        2 ''receiveShadow'' = Some (JBool True)"
  by (simp add: eval_defs)

section \<open>Cascading removal\<close>

lemma removeCallback_fields:
  "entities (removeCallback fi x t) = entities t"
  "children (heap (removeCallback fi x t) y) = children (heap t y)"
  "parent (heap (removeCallback fi x t) y) = parent (heap t y)"
  "entity (heap (removeCallback fi x t) y) = (if y = x then None else entity (heap t y))"
  "removals (removeCallback fi x t)
     = removals t @ (case entity (heap t x) of Some e' \<Rightarrow> [(e', fi)] | None \<Rightarrow> [])"
  by (simp_all add: removeCallback_def setEntity_frame removeEntity_frame split: option.split)

lemma getObject3D_hasComponent:
  "getObject3D s e = Some obj \<Longrightarrow> hasComponent s e Object3DComponent"
proof -
  assume "getObject3D s e = Some obj"
  then have "map_of (entities s e) Object3DComponent \<noteq> None"
    by (auto simp: getObject3D_def getComponent_def split: option.splits)
  then show ?thesis
    by (simp add: hasComponent_def componentTypes_def map_of_eq_None_iff)
qed

lemma removeInv_refl: "removeInv s obj fi s"
  by (simp add: removeInv_def)

lemma removeInvI:
  assumes "entities t = entities s"
    and "\<And>x. children (heap t x) = children (heap s x)"
    and "\<And>x. parent (heap t x) = parent (heap s x)"
    and "\<And>x. entity (heap t x) = entity (heap s x)
             \<or> entity (heap t x) = None
               \<and> (\<forall>e'. entity (heap s x) = Some e' \<longrightarrow> (e', fi) \<in> set (removals t))"
    and "set (removals s) \<subseteq> set (removals t)"
    and "\<And>r. r \<in> set (removals t) \<Longrightarrow> r \<in> set (removals s)
            \<or> (\<exists>x e'. descendant (heap s) obj x \<and> entity (heap s x) = Some e' \<and> r = (e', fi))"
  shows "removeInv s obj fi t"
  unfolding removeInv_def by (intro conjI allI ballI assms; assumption)

lemma removeInvD:
  assumes "removeInv s obj fi t"
  shows "entities t = entities s"
    and "children (heap t x) = children (heap s x)"
    and "parent (heap t x) = parent (heap s x)"
    and "entity (heap t x) = entity (heap s x)
             \<or> entity (heap t x) = None
               \<and> (\<forall>e'. entity (heap s x) = Some e' \<longrightarrow> (e', fi) \<in> set (removals t))"
    and "set (removals s) \<subseteq> set (removals t)"
proof -
  from assms have a: "entities t = entities s
      \<and> (\<forall>x. children (heap t x) = children (heap s x) \<and> parent (heap t x) = parent (heap s x))
      \<and> (\<forall>x. entity (heap t x) = entity (heap s x)
             \<or> entity (heap t x) = None
               \<and> (\<forall>e'. entity (heap s x) = Some e' \<longrightarrow> (e', fi) \<in> set (removals t)))
      \<and> set (removals s) \<subseteq> set (removals t)
      \<and> (\<forall>r \<in> set (removals t). r \<in> set (removals s)
            \<or> (\<exists>x e'. descendant (heap s) obj x \<and> entity (heap s x) = Some e' \<and> r = (e', fi)))"
    unfolding removeInv_def .
  from a show "entities t = entities s" by (elim conjE)
  from a have "\<forall>x. children (heap t x) = children (heap s x) \<and> parent (heap t x) = parent (heap s x)"
    by (elim conjE)
  then show "children (heap t x) = children (heap s x)"
    and "parent (heap t x) = parent (heap s x)" by simp_all
  from a have "\<forall>x. entity (heap t x) = entity (heap s x)
             \<or> entity (heap t x) = None
               \<and> (\<forall>e'. entity (heap s x) = Some e' \<longrightarrow> (e', fi) \<in> set (removals t))"
    by (elim conjE)
  then show "entity (heap t x) = entity (heap s x)
             \<or> entity (heap t x) = None
               \<and> (\<forall>e'. entity (heap s x) = Some e' \<longrightarrow> (e', fi) \<in> set (removals t))" ..
  from a show "set (removals s) \<subseteq> set (removals t)" by (elim conjE)
qed

lemma removeInv_origin:
  assumes "removeInv s obj fi t" and "r \<in> set (removals t)"
  shows "r \<in> set (removals s)
            \<or> (\<exists>x e'. descendant (heap s) obj x \<and> entity (heap s x) = Some e' \<and> r = (e', fi))"
proof -
  from assms(1) have "\<forall>r \<in> set (removals t). r \<in> set (removals s)
            \<or> (\<exists>x e'. descendant (heap s) obj x \<and> entity (heap s x) = Some e' \<and> r = (e', fi))"
    unfolding removeInv_def by (elim conjE)
  from this assms(2) show ?thesis by (rule bspec)
qed

lemma removeInv_step:
  assumes inv: "removeInv s obj fi t" and d: "descendant (heap s) obj b"
  shows "removeInv s obj fi (removeCallback fi b t)"
proof (cases "entity (heap t b)")
  case None
  then have rm: "removals (removeCallback fi b t) = removals t"
    by (simp add: removeCallback_fields)
  have en: "entity (heap (removeCallback fi b t) y) = entity (heap t y)" for y
    using None by (simp add: removeCallback_fields)
  show ?thesis
  proof (rule removeInvI)
    show "entities (removeCallback fi b t) = entities s"
      by (simp add: removeCallback_fields removeInvD[OF inv])
    show "children (heap (removeCallback fi b t) x) = children (heap s x)" for x
      by (simp add: removeCallback_fields removeInvD[OF inv])
    show "parent (heap (removeCallback fi b t) x) = parent (heap s x)" for x
      by (simp add: removeCallback_fields removeInvD[OF inv])
    show "entity (heap (removeCallback fi b t) x) = entity (heap s x)
             \<or> entity (heap (removeCallback fi b t) x) = None
               \<and> (\<forall>e'. entity (heap s x) = Some e' \<longrightarrow>
                      (e', fi) \<in> set (removals (removeCallback fi b t)))" for x
      unfolding rm en by (rule removeInvD(4)[OF inv])
    show "set (removals s) \<subseteq> set (removals (removeCallback fi b t))"
      unfolding rm by (rule removeInvD(5)[OF inv])
    show "r \<in> set (removals s)
            \<or> (\<exists>x e'. descendant (heap s) obj x \<and> entity (heap s x) = Some e' \<and> r = (e', fi))"
      if "r \<in> set (removals (removeCallback fi b t))" for r
      using that unfolding rm by (rule removeInv_origin[OF inv])
  qed
next
  case (Some e')
  from removeInvD(4)[OF inv, of b] Some have orig: "entity (heap s b) = Some e'" by simp
  have rm: "removals (removeCallback fi b t) = removals t @ [(e', fi)]"
    using Some by (simp add: removeCallback_fields)
  show ?thesis
  proof (rule removeInvI)
    show "entities (removeCallback fi b t) = entities s"
      by (simp add: removeCallback_fields removeInvD[OF inv])
    show "children (heap (removeCallback fi b t) x) = children (heap s x)" for x
      by (simp add: removeCallback_fields removeInvD[OF inv])
    show "parent (heap (removeCallback fi b t) x) = parent (heap s x)" for x
      by (simp add: removeCallback_fields removeInvD[OF inv])
    show "entity (heap (removeCallback fi b t) x) = entity (heap s x)
             \<or> entity (heap (removeCallback fi b t) x) = None
               \<and> (\<forall>e''. entity (heap s x) = Some e'' \<longrightarrow>
                      (e'', fi) \<in> set (removals (removeCallback fi b t)))" for x
    proof (cases "x = b")
      case True
      then show ?thesis using orig Some by (simp add: removeCallback_fields)
    next
      case False
      from removeInvD(4)[OF inv, of x] show ?thesis
      proof
        assume "entity (heap t x) = entity (heap s x)"
        with False show ?thesis by (simp add: removeCallback_fields)
      next
        assume "entity (heap t x) = None
               \<and> (\<forall>e'. entity (heap s x) = Some e' \<longrightarrow> (e', fi) \<in> set (removals t))"
        with False show ?thesis using Some by (simp add: removeCallback_fields)
      qed
    qed
    show "set (removals s) \<subseteq> set (removals (removeCallback fi b t))"
      using removeInvD(5)[OF inv] unfolding rm by auto
    show "r \<in> set (removals s)
            \<or> (\<exists>x e'. descendant (heap s) obj x \<and> entity (heap s x) = Some e' \<and> r = (e', fi))"
      if "r \<in> set (removals (removeCallback fi b t))" for r
    proof (cases "r = (e', fi)")
      case True
      with d orig show ?thesis by blast
    next
      case False
      with that have "r \<in> set (removals t)" by (simp add: rm)
      then show ?thesis by (rule removeInv_origin[OF inv])
    qed
  qed
qed

lemma removed_est:
  assumes inv: "removeInv s obj fi t"
  shows "removed s fi b (removeCallback fi b t)"
proof (cases "entity (heap t b)")
  case None
  with removeInvD(4)[OF inv, of b] show ?thesis
    by (auto simp: removed_def removeCallback_fields)
next
  case (Some e')
  with removeInvD(4)[OF inv, of b] show ?thesis
    by (auto simp: removed_def removeCallback_fields)
qed

lemma removed_stab: "removed s fi x t \<Longrightarrow> removed s fi x (removeCallback fi c t)"
  by (auto simp: removed_def removeCallback_fields)

lemma traverse_removeCallback:
  assumes fin: "subtreeWithin (heap s) n fuel obj"
  shows "\<exists>s1. traverse fuel (removeCallback fi) obj s = Some s1
     \<and> removeInv s obj fi s1
     \<and> (\<forall>x. descendant (heap s) obj x \<longrightarrow> removed s fi x s1)"
proof -
  have ch: "children (heap t x) = children (heap s x)" if "removeInv s obj fi t" for t x
    using that by (rule removeInvD)
  have "\<exists>s1. traverse fuel (removeCallback fi) obj s = Some s1 \<and> removeInv s obj fi s1"
  proof (rule traverse_returns[where I = "removeInv s obj fi" and ?h0.0 = "heap s" and r = obj])
    show "children (heap t x) = children (heap s x)" if "removeInv s obj fi t" for t x
      using that by (rule ch)
    show "removeInv s obj fi (removeCallback fi b t)"
      if "removeInv s obj fi t" "descendant (heap s) obj b" for b t
      using that by (rule removeInv_step)
    show "subtreeWithin (heap s) n fuel obj" by (rule fin)
    show "descendant (heap s) obj obj" by (rule descendant.self)
    show "removeInv s obj fi s" by (rule removeInv_refl)
  qed
  then obtain s1 where run: "traverse fuel (removeCallback fi) obj s = Some s1" by blast
  have "removeInv s obj fi s1
      \<and> (\<forall>x. removed s fi x s \<longrightarrow> removed s fi x s1)
      \<and> (\<forall>x. descendant (heap s) obj x \<longrightarrow> removed s fi x s1)"
  proof (rule traverse_visits[where I = "removeInv s obj fi" and Q = "removed s fi"
          and ?h0.0 = "heap s" and r = obj])
    show "children (heap t x) = children (heap s x)" if "removeInv s obj fi t" for t x
      using that by (rule ch)
    show "removeInv s obj fi (removeCallback fi b t)"
      if "removeInv s obj fi t" "descendant (heap s) obj b" for b t
      using that by (rule removeInv_step)
    show "removed s fi b (removeCallback fi b t)" if "removeInv s obj fi t" for b t
      using that by (rule removed_est)
    show "removed s fi x (removeCallback fi c t)" if "removed s fi x t" for x c t
      using that by (rule removed_stab)
    show "removeInv s obj fi s" by (rule removeInv_refl)
    show "descendant (heap s) obj obj" by (rule descendant.self)
    show "traverse fuel (removeCallback fi) obj s = Some s1" by (rule run)
  qed
  with run show ?thesis by blast
qed


lemma object3D_remove_links:
  assumes "ob \<in> set (children (heap s this))"
  shows "parent (heap (object3D_remove this ob s) ob) = None"
    and "children (heap (object3D_remove this ob s) this) = remove1 ob (children (heap s this))"
  using assms by (simp_all add: object3D_remove_def store_defs Let_def)

lemma remove_unfold:
  assumes own: "getObject3D s e = Some obj"
    and run: "traverse fuel (removeCallback fi) obj s = Some s1"
  shows "remove fuel e fi s
           = Some (Inr (removeEntity e fi
                (case parent (heap s1 obj) of
                   Some p \<Rightarrow> object3D_remove p obj s1
                 | None \<Rightarrow> s1)))"
  using getObject3D_hasComponent[OF own] own run by (simp add: remove_def Let_def)

text \<open>
  C8, as the code has it. Let the entity's scene-node reference hold a node whose subtree
  is finite within the fuel, in a state that keeps the ownership discipline (back-references
  and references agree, no node refers to a removed entity) and in which the node is among
  its parent's children once. Then \<^verbatim>\<open>remove\<close> returns; for every node of the subtree that
  had a back-reference, the removal of that entity has been requested with the same flag
  and the back-reference is cleared; the removal of the entity itself has been requested;
  the root of the subtree has no parent and is not among its former parent's children; no
  node refers to an entity whose removal has been requested; and every entity whose
  reference holds a node of the subtree is among the removed.
\<close>

theorem remove_cascades:
  assumes own: "getObject3D s e = Some obj"
    and fin: "subtreeWithin (heap s) n fuel obj"
    and cons: "consistent s"
    and link: "parentLinkOk s obj"
  shows "\<exists>s'. remove fuel e forceImmediate s = Some (Inr s')
     \<and> (\<forall>b e'. descendant (heap s) obj b \<longrightarrow> entity (heap s b) = Some e' \<longrightarrow>
            (e', forceImmediate) \<in> set (removals s') \<and> entity (heap s' b) = None)
     \<and> (e, forceImmediate) \<in> set (removals s')
     \<and> parent (heap s' obj) = None
     \<and> (\<forall>p. parent (heap s obj) = Some p \<longrightarrow> obj \<notin> set (children (heap s' p)))
     \<and> (\<forall>b e'. entity (heap s' b) = Some e' \<longrightarrow> e' \<notin> fst ` set (removals s'))
     \<and> (\<forall>e' b. getObject3D s' e' = Some b \<longrightarrow> descendant (heap s) obj b \<longrightarrow>
            e' \<in> fst ` set (removals s'))"
proof -
  let ?fi = forceImmediate
  from traverse_removeCallback[OF fin, of ?fi] obtain s1
    where run: "traverse fuel (removeCallback ?fi) obj s = Some s1"
      and inv: "removeInv s obj ?fi s1"
      and vis: "\<And>x. descendant (heap s) obj x \<Longrightarrow> removed s ?fi x s1"
    by blast
  let ?s2 = "case parent (heap s1 obj) of Some p \<Rightarrow> object3D_remove p obj s1 | None \<Rightarrow> s1"
  let ?s' = "removeEntity e ?fi ?s2"
  have res: "remove fuel e ?fi s = Some (Inr ?s')"
    using own run by (rule remove_unfold)
  have par1: "parent (heap s1 obj) = parent (heap s obj)" by (rule removeInvD[OF inv])
  have ch1: "children (heap s1 x) = children (heap s x)" for x by (rule removeInvD[OF inv])
  have ent': "entity (heap ?s' x) = entity (heap s1 x)" for x
    by (simp add: removeEntity_frame object3D_remove_frame split: option.split)
  have ents': "entities ?s' = entities s"
    by (simp add: removeEntity_frame object3D_remove_frame removeInvD[OF inv] split: option.split)
  have rem': "removals ?s' = removals s1 @ [(e, ?fi)]"
    by (simp add: removeEntity_frame object3D_remove_frame split: option.split)
  have look': "getObject3D ?s' = getObject3D s" using ents' by (rule entities_cong)
  from cons have bk: "\<And>x e'. entity (heap s x) = Some e' \<Longrightarrow> getObject3D s e' = Some x"
    and owner: "\<And>e' x. getObject3D s e' = Some x \<Longrightarrow> entity (heap s x) = Some e'"
    and clean: "\<And>x e'. entity (heap s x) = Some e' \<Longrightarrow> e' \<notin> fst ` set (removals s)"
    unfolding consistent_def by blast+
  have a: "(e', ?fi) \<in> set (removals ?s') \<and> entity (heap ?s' b) = None"
    if "descendant (heap s) obj b" "entity (heap s b) = Some e'" for b e'
    using vis[OF that(1)] that(2) by (simp add: removed_def rem' ent')
  have b: "(e, ?fi) \<in> set (removals ?s')" by (simp add: rem')
  have c: "parent (heap ?s' obj) = None"
    and d: "\<And>p. parent (heap s obj) = Some p \<Longrightarrow> obj \<notin> set (children (heap ?s' p))"
  proof -
    show "parent (heap ?s' obj) = None"
    proof (cases "parent (heap s obj)")
      case None
      then show ?thesis by (simp add: removeEntity_frame par1)
    next
      case (Some p)
      with link have "obj \<in> set (children (heap s1 p))" by (simp add: parentLinkOk_def ch1)
      then show ?thesis
        using Some by (simp add: removeEntity_frame par1 object3D_remove_links)
    qed
    show "obj \<notin> set (children (heap ?s' p))" if "parent (heap s obj) = Some p" for p
    proof -
      from link that have "obj \<in> set (children (heap s1 p))"
        and "distinct (children (heap s1 p))" by (simp_all add: parentLinkOk_def ch1)
      then show ?thesis
        using that by (simp add: removeEntity_frame par1 object3D_remove_links)
    qed
  qed
  have f: "e' \<notin> fst ` set (removals ?s')" if "entity (heap ?s' x) = Some e'" for x e'
  proof
    assume "e' \<in> fst ` set (removals ?s')"
    then have "e' \<in> fst ` insert (e, ?fi) (set (removals s1))"
      unfolding rem' by simp
    then obtain r where "r = (e, ?fi) \<or> r \<in> set (removals s1)" and "e' = fst r"
      by blast
    then have "(e', snd r) \<in> set (removals s1) \<or> (e', snd r) = (e, ?fi)"
      by (cases r) auto
    then obtain g where g: "(e', g) \<in> set (removals s1) \<or> (e', g) = (e, ?fi)" ..
    from that have x1: "entity (heap s1 x) = Some e'" by (simp add: ent')
    with removeInvD(4)[OF inv, of x] have xs: "entity (heap s x) = Some e'" by simp
    have nd: "\<not> descendant (heap s) obj x"
    proof
      assume "descendant (heap s) obj x"
      from vis[OF this] x1 show False by (simp add: removed_def)
    qed
    from g show False
    proof
      assume "(e', g) \<in> set (removals s1)"
      from removeInv_origin[OF inv this] show False
      proof
        assume "(e', g) \<in> set (removals s)"
        then have "e' \<in> fst ` set (removals s)" by force
        with clean[OF xs] show False by simp
      next
        assume "\<exists>y e''. descendant (heap s) obj y \<and> entity (heap s y) = Some e''
                  \<and> (e', g) = (e'', ?fi)"
        then obtain y where y: "descendant (heap s) obj y" "entity (heap s y) = Some e'" by auto
        from bk[OF y(2)] bk[OF xs] have "y = x" by simp
        with y(1) nd show False by simp
      qed
    next
      assume "(e', g) = (e, ?fi)"
      then have "e' = e" by simp
      with bk[OF xs] own have "x = obj" by simp
      with nd show False by (simp add: descendant.self)
    qed
  qed
  have h: "e' \<in> fst ` set (removals ?s')"
    if "getObject3D ?s' e' = Some x" "descendant (heap s) obj x" for e' x
  proof -
    from that(1) have "getObject3D s e' = Some x" by (simp add: look')
    then have "entity (heap s x) = Some e'" by (rule owner)
    with a[OF that(2)] have "(e', ?fi) \<in> set (removals ?s')" by simp
    then show ?thesis by force
  qed
  from res a b c d f h show ?thesis by blast
qed

lemma cascadeState_fields:
  "heap cascadeState = exampleHeap
          (0 := (exampleHeap 0)\<lparr>children := [8]\<rparr>,
           8 := (exampleHeap 8)\<lparr>parent := Some 0, children := [9, 2], entity := Some 0\<rparr>,
           9 := (exampleHeap 9)\<lparr>entity := Some 3\<rparr>,
           2 := (exampleHeap 2)\<lparr>parent := Some 8, entity := Some 4\<rparr>)"
  "removals cascadeState = []"
  "entities cascadeState = (\<lambda>e. [])
          (0 := [(Object3DComponent, \<lparr>cvalue = Some 8\<rparr>),
                 (GroupTagComponent, \<lparr>cvalue = None\<rparr>)],
           3 := [(Object3DComponent, \<lparr>cvalue = Some 9\<rparr>),
                 (MeshTagComponent, \<lparr>cvalue = None\<rparr>)],
           4 := [(Object3DComponent, \<lparr>cvalue = Some 2\<rparr>),
                 (MeshTagComponent, \<lparr>cvalue = None\<rparr>),
                 (SkinnedMeshTagComponent, \<lparr>cvalue = None\<rparr>)])"
  by (simp_all add: cascadeState_def exampleState_def)

lemma exampleHeap_links:
  "entity (exampleHeap a) = None"
  "parent (exampleHeap 8) = None" "parent (exampleHeap 2) = None"
  by (simp_all add: exampleHeap_def objectWith_def nodeWith_def plainObject_def)

lemma cascadeState_consistent: "consistent cascadeState"
  unfolding consistent_def
  by (simp add: cascadeState_fields exampleHeap_links getObject3D_def getComponent_def)

theorem remove_cascades_witness:
  "getObject3D cascadeState 0 = Some 8
   \<and> subtreeWithin (heap cascadeState) 11 (Suc (Suc 0)) 8
   \<and> consistent cascadeState
   \<and> parentLinkOk cascadeState 8
   \<and> descendant (heap cascadeState) 8 9 \<and> entity (heap cascadeState 9) = Some 3
   \<and> descendant (heap cascadeState) 8 2 \<and> entity (heap cascadeState 2) = Some 4
   \<and> (\<exists>s'. remove (Suc (Suc 0)) 0 False cascadeState = Some (Inr s')
         \<and> (3, False) \<in> set (removals s') \<and> entity (heap s' 9) = None
         \<and> (4, False) \<in> set (removals s') \<and> entity (heap s' 2) = None
         \<and> (0, False) \<in> set (removals s')
         \<and> parent (heap s' 8) = None \<and> 8 \<notin> set (children (heap s' 0)))"
proof -
  have own: "getObject3D cascadeState 0 = Some 8"
    by (simp add: getObject3D_def getComponent_def cascadeState_fields)
  have fin: "subtreeWithin (heap cascadeState) 11 (Suc (Suc 0)) 8"
    by (simp add: cascadeState_fields exampleHeap_children)
  note cons = cascadeState_consistent
  have link: "parentLinkOk cascadeState 8"
    by (simp add: parentLinkOk_def cascadeState_fields)
  have d9: "descendant (heap cascadeState) 8 9"
    by (rule descendant.child[where c = 9]) (simp_all add: cascadeState_fields descendant.self)
  have d2: "descendant (heap cascadeState) 8 2"
    by (rule descendant.child[where c = 2]) (simp_all add: cascadeState_fields descendant.self)
  have e9: "entity (heap cascadeState 9) = Some 3" by (simp add: cascadeState_fields)
  have e2: "entity (heap cascadeState 2) = Some 4" by (simp add: cascadeState_fields)
  have p8: "parent (heap cascadeState 8) = Some 0" by (simp add: cascadeState_fields)
  from remove_cascades[OF own fin cons link, of False]
  obtain s' where run: "remove (Suc (Suc 0)) 0 False cascadeState = Some (Inr s')"
    and sub: "\<And>b e'. descendant (heap cascadeState) 8 b \<Longrightarrow>
                entity (heap cascadeState b) = Some e' \<Longrightarrow>
                (e', False) \<in> set (removals s') \<and> entity (heap s' b) = None"
    and self: "(0, False) \<in> set (removals s')"
    and par: "parent (heap s' 8) = None"
    and det: "\<And>p. parent (heap cascadeState 8) = Some p \<Longrightarrow>
                8 \<notin> set (children (heap s' p))"
    by blast
  from sub[OF d9 e9] sub[OF d2 e2] self par det[OF p8] run
  have "\<exists>s'. remove (Suc (Suc 0)) 0 False cascadeState = Some (Inr s')
         \<and> (3, False) \<in> set (removals s') \<and> entity (heap s' 9) = None
         \<and> (4, False) \<in> set (removals s') \<and> entity (heap s' 2) = None
         \<and> (0, False) \<in> set (removals s')
         \<and> parent (heap s' 8) = None \<and> 8 \<notin> set (children (heap s' 0))"
    by blast
  with own fin cons link d9 e9 d2 e2 show ?thesis by blast
qed

text \<open>
  Against C8 as the specification words it, for every entity that owns a reference.
  Node 2 of the example scene is attached to entity 5 and then to entity 0, and entity 0
  is removed. Entity 5 has not been removed, and its reference still holds node 2, which
  has been detached from the scene.
\<close>

theorem shared_node_left_referenced:
  "(case thenRun (thenRun
            (addObject3DComponent exampleColor (Suc 0) 5 (nodeArgs 2) exampleState)
            (addObject3DComponent exampleColor (Suc 0) 0 (nodeArgs 2)))
          (remove (Suc 0) 0 True) of
      Some (Inr s') \<Rightarrow>
        getObject3D s' 5 = Some 2 \<and> removals s' = [(0, True), (0, True)]
        \<and> parent (heap s' 2) = None \<and> children (heap s' 0) = []
    | _ \<Rightarrow> False)"
  by (simp add: eval_defs thenRun_def remove_def getObject3D_def removeCallback_def
      removeEntity_def)

section \<open>Attaching, detaching, attaching again\<close>





end
